theory Spec2Isabelle
  imports Main
begin

unbundle bit_operations_syntax

section \<open>Bytes, errors and outcomes\<close>

text \<open>
  Go strings and byte slices are sequences of bytes: both are modelled as \<open>string\<close>
  (a list of 8-bit characters). \<open>NL\<close> is the byte \<open>'\n'\<close>, \<open>CR\<close> the byte \<open>'\r'\<close>.
\<close>

abbreviation NL :: char where "NL \<equiv> CHR 0x0A"
abbreviation CR :: char where "CR \<equiv> CHR 0x0D"

text \<open>The sentinel errors of the package, which \<open>fmt.Errorf("%w: ...")\<close> wraps.\<close>

datatype sentinel =
  ErrSyslogURLparse | ErrSyslogConnection | ErrSyslogWrite
  | ErrSyslogProcessHandleResult | ErrSyslogHandle

text \<open>Errors of \<open>bufio.Scanner\<close>; \<open>EOF\<close> is the reader's \<open>io.EOF\<close>.\<close>

datatype scan_error = EOF | ErrTooLong | ErrAdvanceTooFar | ErrNoProgress

text \<open>
  Errors of \<open>net/url.Parse\<close>: an invalid control character, a missing protocol scheme, a
  colon in the first path segment of a relative URL, a missing \<open>]\<close> in the host, an
  invalid port, an invalid percent escape (\<open>EscapeError\<close>), an invalid character in the
  host (\<open>InvalidHostError\<close>) and an invalid userinfo.
\<close>

datatype url_error =
  InvalidControlCharacter
  | MissingProtocolScheme
  | FirstPathSegmentColon
  | MissingBracket
  | InvalidPort string
  | EscapeError string
  | InvalidHostError string
  | InvalidUserinfo

text \<open>
  An error value returned by the package: either an error of the caller's line function,
  passed on as it is, or a sentinel wrapping a cause. Errors of the operating system
  (dial, write, deadline) are carried as their message.
\<close>

datatype 'e cause =
  NotConnected
  | IOErr string
  | ScanErr scan_error
  | URLWrong string url_error
  | UnsupportedProto string string
  | Downstream 'e

datatype 'e error = UserErr 'e | Wrapped sentinel "'e cause"

text \<open>
  What a call of a function returning \<open>error\<close> does: it returns \<open>nil\<close>, returns an
  error, panics, or blocks on the mutex (which, with one thread of control, is for ever).
\<close>

datatype panic = IndexOutOfRange | MakeSliceOutOfRange | TooManyEmptyTokens

datatype 'e result = Nil | Err "'e error" | Panic panic | Blocked

section \<open>The connection\<close>

text \<open>
  \<open>net.Conn\<close> is an interface to the operating system. A connection records the network
  and address it was dialled with, the byte slices of the \<open>Write\<close> calls that succeeded
  (oldest first), the write deadline, and a script \<open>faults\<close> giving the outcome of each
  coming \<open>SetWriteDeadline\<close> or \<open>Write\<close> call: \<open>None\<close> is success, \<open>Some msg\<close> a failure;
  when the script is exhausted every call succeeds. A \<open>Write\<close> that fails is taken to
  send nothing.
\<close>

record conn =
  network :: string
  address :: string
  sent :: "string list"
  wdeadline :: "int option"
  faults :: "string option list"

definition next_fault :: "conn \<Rightarrow> string option \<times> conn" where
  "next_fault c = (case faults c of [] \<Rightarrow> (None, c) | f # fs \<Rightarrow> (f, c\<lparr>faults := fs\<rparr>))"

definition SetWriteDeadline :: "conn \<Rightarrow> int \<Rightarrow> string option \<times> conn" where
  "SetWriteDeadline c t =
     (case next_fault c of
        (Some e, c') \<Rightarrow> (Some e, c')
      | (None, c') \<Rightarrow> (None, c'\<lparr>wdeadline := Some t\<rparr>))"

definition Write :: "conn \<Rightarrow> string \<Rightarrow> string option \<times> conn" where
  "Write c bs =
     (case next_fault c of
        (Some e, c') \<Rightarrow> (Some e, c')
      | (None, c') \<Rightarrow> (None, c'\<lparr>sent := sent c' @ [bs]\<rparr>))"

text \<open>The bytes on the wire: the writes one after the other.\<close>

definition wire :: "conn \<Rightarrow> string" where
  "wire c = concat (sent c)"

section \<open>The proxy\<close>

text \<open>
  \<open>sync.Mutex\<close>: whether it is held, and how many times it has been acquired.
\<close>

record mutex =
  locked :: bool
  acquisitions :: nat

text \<open>
  \<open>SyslogProxy\<close>. \<open>buf\<close> is the unread content of the \<open>bytes.Buffer\<close>; \<open>conn\<close> is \<open>None\<close>
  for Go's \<open>nil\<close> (disconnected). A connection held in \<open>conn\<close> is open: the code calls
  \<open>Close\<close> only in \<open>Disconnect\<close>, which clears the field with it. The field
  \<open>stderrLogger\<close> is not read by any function here and is left out.
\<close>

record SyslogProxy =
  buf :: string
  lineProcessBuf :: string
  priority :: int
  tag :: string
  url :: string
  conn :: "conn option"
  useLocalTZ :: bool
  timeout :: int
  mu :: mutex

definition IsConnected :: "SyslogProxy \<Rightarrow> bool" where
  "IsConnected s = (conn s \<noteq> None)"

definition Disconnect :: "SyslogProxy \<Rightarrow> SyslogProxy" where
  "Disconnect s = (if conn s \<noteq> None then s\<lparr>conn := None\<rparr> else s)"

subsection \<open>Construction\<close>

text \<open>Severities and facilities of \<open>log/syslog\<close>.\<close>

definition LOG_INFO :: int where "LOG_INFO = 6"
definition LOG_DEBUG :: int where "LOG_DEBUG = 7"
definition LOG_USER :: int where "LOG_USER = push_bit 3 1"
definition LOG_LOCAL7 :: int where "LOG_LOCAL7 = push_bit 3 23"

record SyslogProxyOptions =
  UseLocalTZ :: bool
  Priority :: int
  Tag :: string
  IOBufSize :: int
  LineProcessBufSize :: int

text \<open>The zero value \<open>&SyslogProxyOptions{}\<close>.\<close>

definition zeroOptions :: SyslogProxyOptions where
  "zeroOptions = \<lparr>UseLocalTZ = False, Priority = 0, Tag = [], IOBufSize = 0,
     LineProcessBufSize = 0\<rparr>"

text \<open>
  \<open>NewSyslogProxy\<close>. \<open>args\<close> is \<open>os.Args\<close>; \<open>InitialIOBufSize\<close> and
  \<open>InitialLineProcessBufSize\<close> are constants of the package declared in another file
  and are parameters here. \<open>os.Args[0]\<close> panics on an empty \<open>os.Args\<close>. \<open>make\<close> panics
  (\<open>makeslice: cap out of range\<close>, \<open>len out of range\<close>) on a negative size and on a size
  above \<open>maxAlloc\<close>, the largest size the allocator of the running program grants
  (\<open>2^48\<close> bytes at most on 64-bit Linux). The buffer is made first, the line buffer
  second. The capacity of the buffer has no effect on its content.
\<close>

definition NewSyslogProxy ::
  "string list \<Rightarrow> int \<Rightarrow> int \<Rightarrow> int \<Rightarrow> SyslogProxyOptions option \<Rightarrow> panic + SyslogProxy" where
  "NewSyslogProxy args maxAlloc InitialIOBufSize InitialLineProcessBufSize opts =
    (let o0 = (case opts of None \<Rightarrow> zeroOptions | Some o' \<Rightarrow> o');
         o1 = (if IOBufSize o0 = 0 then o0\<lparr>IOBufSize := InitialIOBufSize\<rparr> else o0);
         o2 = (if LineProcessBufSize o1 = 0
               then o1\<lparr>LineProcessBufSize := InitialLineProcessBufSize\<rparr> else o1);
         o3 = (if Priority o2 < 0 \<or> Priority o2 > (LOG_LOCAL7 OR LOG_DEBUG)
               then o2\<lparr>Priority := LOG_INFO OR LOG_USER\<rparr> else o2)
     in if Tag o3 = [] \<and> args = [] then Inl IndexOutOfRange
        else let o4 = (if Tag o3 = [] then o3\<lparr>Tag := hd args\<rparr> else o3)
          in if IOBufSize o4 < 0 \<or> IOBufSize o4 > maxAlloc then Inl MakeSliceOutOfRange
             else if LineProcessBufSize o4 < 0 \<or> LineProcessBufSize o4 > maxAlloc
             then Inl MakeSliceOutOfRange
             else Inr \<lparr>buf = [],
                       lineProcessBuf = replicate (nat (LineProcessBufSize o4)) (CHR 0x00),
                       priority = Priority o4,
                       tag = Tag o4,
                       url = [],
                       conn = None,
                       useLocalTZ = UseLocalTZ o4,
                       timeout = 0,
                       mu = \<lparr>locked = False, acquisitions = 0\<rparr>\<rparr>)"

section \<open>The forwarding handler\<close>

text \<open>
  The wrapped \<open>slog.Handler\<close>: its \<open>Enabled\<close>, its \<open>Handle\<close> (the bytes it writes to the
  writer it was built on, which is the proxy's buffer, and its error), and the number of
  times \<open>Handle\<close> has been called. Levels are \<open>slog.Level\<close>, an \<open>int\<close>.
\<close>

record ('r, 'e) downstream =
  d_enabled :: "int \<Rightarrow> bool"
  d_handle :: "'r \<Rightarrow> string \<times> 'e option"
  d_calls :: nat

text \<open>
  \<open>SyslogHandler\<close>. The field \<open>syslogPx\<close> is a pointer to the proxy, whose state the
  functions below take and return beside the handler.
\<close>

record ('r, 'e) SyslogHandler =
  handler :: "('r, 'e) downstream"
  level :: int
  lineProcessFunc :: "string \<Rightarrow> 'e + string"

definition Enabled :: "('r, 'e) SyslogHandler \<Rightarrow> int \<Rightarrow> bool" where
  "Enabled h lv = (lv \<ge> level h)"

text \<open>
  The loop of \<open>NewSyslogHandler\<close> over \<open>allowedLevels\<close>: the first level the wrapped
  handler enables is stored and the loop ends; \<open>lv\<close> is the value \<open>sh.level\<close> has before.
\<close>

fun probe_level :: "(int \<Rightarrow> bool) \<Rightarrow> int list \<Rightarrow> int \<Rightarrow> int" where
  "probe_level en [] lv = lv"
| "probe_level en (logLevel # ls) lv = (if en logLevel then logLevel else probe_level en ls lv)"

text \<open>
  \<open>NewSyslogHandler\<close>. \<open>allowedLevels\<close> and \<open>TrimTimestamp\<close> are declared in other files
  of the package and are parameters. The options are \<open>None\<close> when \<open>opts\<close> or its
  \<open>LineProcessFunc\<close> is \<open>nil\<close>; the default line function drops the second result of
  \<open>TrimTimestamp\<close> and never fails.
\<close>

definition NewSyslogHandler ::
  "int list \<Rightarrow> (string \<Rightarrow> string \<times> 'x) \<Rightarrow> ('r, 'e) downstream
     \<Rightarrow> (string \<Rightarrow> 'e + string) option \<Rightarrow> ('r, 'e) SyslogHandler" where
  "NewSyslogHandler allowedLevels TrimTimestamp h opts =
     \<lparr>handler = h,
      level = probe_level (d_enabled h) allowedLevels 0,
      lineProcessFunc =
        (case opts of None \<Rightarrow> (\<lambda>line. Inr (fst (TrimTimestamp line))) | Some f \<Rightarrow> f)\<rparr>"

section \<open>Line scanning\<close>

text \<open>
  \<open>ProcessLines\<close> reads the buffer through a \<open>bufio.Scanner\<close> with the default split
  function \<open>bufio.ScanLines\<close>. The scanner is modelled as the Go standard library
  defines it: it reads from the \<open>bytes.Buffer\<close> in chunks into a buffer of its own,
  which starts at 4096 bytes and doubles up to 64 KiB, and cuts tokens from that.
\<close>

definition startBufSize :: nat where "startBufSize = 4096"
definition MaxScanTokenSize :: nat where "MaxScanTokenSize = 64 * 1024"
definition maxConsecutiveEmptyReads :: nat where "maxConsecutiveEmptyReads = 100"
definition maxInt :: nat where "maxInt = 2 ^ 63 - 1"

text \<open>
  The scanner: \<open>sc_buflen\<close> is \<open>len(s.buf)\<close>, \<open>sc_data\<close> is the window
  \<open>s.buf[s.start:s.end]\<close> of bytes read and not yet consumed (nothing outside the window
  is ever read again), \<open>sc_token\<close> the last token. \<open>s.maxTokenSize\<close> is \<open>MaxScanTokenSize\<close>
  throughout, as \<open>NewScanner\<close> sets it.
\<close>

record Scanner =
  sc_buflen :: nat
  sc_start :: nat
  sc_data :: string
  sc_token :: string
  sc_err :: "scan_error option"
  sc_empties :: nat
  sc_done :: bool

definition sc_end :: "Scanner \<Rightarrow> nat" where
  "sc_end s = sc_start s + length (sc_data s)"

definition NewScanner :: Scanner where
  "NewScanner = \<lparr>sc_buflen = 0, sc_start = 0, sc_data = [], sc_token = [], sc_err = None,
     sc_empties = 0, sc_done = False\<rparr>"

definition setErr :: "Scanner \<Rightarrow> scan_error \<Rightarrow> Scanner" where
  "setErr s e = (if sc_err s = None \<or> sc_err s = Some EOF then s\<lparr>sc_err := Some e\<rparr> else s)"

text \<open>\<open>Scanner.Err\<close>: the first error that was not \<open>io.EOF\<close>.\<close>

definition ScannerErr :: "Scanner \<Rightarrow> scan_error option" where
  "ScannerErr s = (if sc_err s = Some EOF then None else sc_err s)"

definition IndexByte :: "string \<Rightarrow> char \<Rightarrow> nat option" where
  "IndexByte b c = (if c \<in> set b then Some (length (takeWhile (\<lambda>x. x \<noteq> c) b)) else None)"

definition dropCR :: "string \<Rightarrow> string" where
  "dropCR data = (if data \<noteq> [] \<and> last data = CR then butlast data else data)"

text \<open>
  \<open>bufio.ScanLines\<close>: how far to advance and the token, \<open>None\<close> for a \<open>nil\<close> token
  (more data is needed). It never returns an error.
\<close>

definition ScanLines :: "string \<Rightarrow> bool \<Rightarrow> nat \<times> string option" where
  "ScanLines data atEOF =
     (if atEOF \<and> data = [] then (0, None)
      else case IndexByte data NL of
             Some i \<Rightarrow> (i + 1, Some (dropCR (take i data)))
           | None \<Rightarrow> if atEOF then (length data, Some (dropCR data)) else (0, None))"

definition advance :: "Scanner \<Rightarrow> nat \<Rightarrow> bool \<times> Scanner" where
  "advance s n =
     (if n > sc_end s - sc_start s then (False, setErr s ErrAdvanceTooFar)
      else (True, s\<lparr>sc_start := sc_start s + n, sc_data := drop n (sc_data s)\<rparr>))"

text \<open>A part of one round of the loop in \<open>Scan\<close> either returns from \<open>Scan\<close> or goes on.\<close>

datatype scan_step = Return "panic + bool" Scanner | Continue Scanner

text \<open>The first part of a round: try to cut a token from what the scanner holds.\<close>

definition try_token :: "Scanner \<Rightarrow> scan_step" where
  "try_token s =
     (if sc_end s > sc_start s \<or> sc_err s \<noteq> None then
        (case ScanLines (sc_data s) (sc_err s \<noteq> None) of (adv, token) \<Rightarrow>
           (case advance s adv of
              (False, s1) \<Rightarrow> Return (Inr False) s1
            | (True, s1) \<Rightarrow>
               (case token of
                  None \<Rightarrow> Continue (s1\<lparr>sc_token := []\<rparr>)
                | Some t \<Rightarrow>
                    if sc_err s1 = None \<or> adv > 0
                    then Return (Inr True) (s1\<lparr>sc_token := t, sc_empties := 0\<rparr>)
                    else if sc_empties s1 + 1 > maxConsecutiveEmptyReads
                    then Return (Inl TooManyEmptyTokens)
                           (s1\<lparr>sc_token := t, sc_empties := sc_empties s1 + 1\<rparr>)
                    else Return (Inr True)
                           (s1\<lparr>sc_token := t, sc_empties := sc_empties s1 + 1\<rparr>))))
      else Continue s)"

text \<open>
  The second part: shift the window to the start of the buffer, and grow a full buffer,
  or fail with \<open>ErrTooLong\<close> when it cannot grow.
\<close>

definition make_room :: "Scanner \<Rightarrow> scan_step" where
  "make_room s =
     (let s1 = (if sc_start s > 0 \<and> (sc_end s = sc_buflen s \<or> sc_start s > sc_buflen s div 2)
                then s\<lparr>sc_start := 0\<rparr> else s)
      in if sc_end s1 = sc_buflen s1 then
           (if sc_buflen s1 \<ge> MaxScanTokenSize \<or> sc_buflen s1 > maxInt div 2
            then Return (Inr False) (setErr s1 ErrTooLong)
            else let newSize = sc_buflen s1 * 2;
                     newSize1 = (if newSize = 0 then startBufSize else newSize);
                     newSize2 = min newSize1 MaxScanTokenSize
                 in Continue (s1\<lparr>sc_buflen := newSize2, sc_start := 0\<rparr>))
         else Continue s1)"

text \<open>
  The third part: read from the \<open>bytes.Buffer\<close>, whose unread content is \<open>r\<close>, into the
  free end of the scanner's buffer. \<open>Buffer.Read\<close> returns \<open>io.EOF\<close> on an empty buffer
  and otherwise copies as much as fits; a hundred reads of nothing end in
  \<open>io.ErrNoProgress\<close>.
\<close>

definition fill :: "Scanner \<Rightarrow> string \<Rightarrow> Scanner \<times> string" where
  "fill s r =
     (if r = [] then (setErr s EOF, r)
      else let n = min (sc_buflen s - sc_end s) (length r)
           in if n > 0 then (s\<lparr>sc_data := sc_data s @ take n r, sc_empties := 0\<rparr>, drop n r)
              else (setErr s ErrNoProgress, r))"

lemma try_token_Continue:
  "try_token s = Continue s1 \<Longrightarrow> sc_err s1 = sc_err s \<and> sc_data s1 = sc_data s"
  by (auto simp: try_token_def advance_def ScanLines_def split: if_splits prod.splits
      option.splits bool.splits)

lemma make_room_Continue:
  "make_room s = Continue s1 \<Longrightarrow> sc_err s1 = sc_err s \<and> sc_data s1 = sc_data s"
  by (auto simp: make_room_def Let_def sc_end_def split: if_splits)

lemma fill_measure:
  "sc_err s = None \<Longrightarrow> fill s r = (s', r') \<Longrightarrow>
     2 * length r' + (if sc_err s' = None then 1 else 0) < 2 * length r + (1::nat)"
  by (auto simp: fill_def setErr_def Let_def split: if_splits)

text \<open>The loop of \<open>Scan\<close>.\<close>

function Scan_loop :: "Scanner \<Rightarrow> string \<Rightarrow> (panic + bool) \<times> Scanner \<times> string" where
  "Scan_loop s r =
     (case try_token s of
        Return b s' \<Rightarrow> (b, s', r)
      | Continue s1 \<Rightarrow>
          if sc_err s1 \<noteq> None then (Inr False, s1\<lparr>sc_start := 0, sc_data := []\<rparr>, r)
          else (case make_room s1 of
                  Return b s' \<Rightarrow> (b, s', r)
                | Continue s2 \<Rightarrow> (case fill s2 r of (s3, r') \<Rightarrow> Scan_loop s3 r')))"
  by pat_completeness auto
termination
proof (relation "measure (\<lambda>(s, r). 2 * length r + (if sc_err s = None then 1 else 0))",
    goal_cases)
  case 1
  show ?case by simp
next
  case (2 s r s1 s2 s3 r')
  have e: "sc_err s = None" "sc_err s2 = None"
    using 2(1,2,3) try_token_Continue make_room_Continue by auto
  have "fill s2 r = (s3, r')" using 2(4) by simp
  from fill_measure [OF e(2) this] e(1) show ?case by simp
qed

definition Scan :: "Scanner \<Rightarrow> string \<Rightarrow> (panic + bool) \<times> Scanner \<times> string" where
  "Scan s r = (if sc_done s then (Inr False, s, r) else Scan_loop s r)"

text \<open>
  Each token consumes input: the bytes held by the scanner and by the buffer together
  never grow in \<open>Scan\<close>, and shrink when it returns a token. This is what makes the loop
  of \<open>ProcessLines\<close> end.
\<close>

lemma try_token_Return:
  "try_token s = Return b s' \<Longrightarrow>
     length (sc_data s') \<le> length (sc_data s)
     \<and> (b = Inr True \<longrightarrow> length (sc_data s') < length (sc_data s))"
  by (auto simp: try_token_def advance_def ScanLines_def setErr_def sc_end_def IndexByte_def
      split: if_splits prod.splits option.splits bool.splits)

lemma make_room_Return:
  "make_room s = Return b s' \<Longrightarrow> sc_data s' = sc_data s \<and> b = Inr False"
  by (auto simp: make_room_def Let_def sc_end_def setErr_def split: if_splits)

lemma fill_content: "fill s r = (s', r') \<Longrightarrow> sc_data s' @ r' = sc_data s @ r"
  by (auto simp: fill_def setErr_def Let_def split: if_splits)

lemma Scan_loop_consumes:
  "Scan_loop s r = (b, s', r') \<Longrightarrow>
     length (sc_data s') + length r' \<le> length (sc_data s) + length r
     \<and> (b = Inr True \<longrightarrow> length (sc_data s') + length r' < length (sc_data s) + length r)"
proof (induction s r rule: Scan_loop.induct)
  case (1 s r)
  show ?case
  proof (cases "try_token s")
    case (Return b0 s0)
    then have "b = b0" "s' = s0" "r' = r" using "1.prems" by simp_all
    then show ?thesis using try_token_Return [OF Return] by auto
  next
    case (Continue s1)
    note c1 = try_token_Continue [OF Continue]
    show ?thesis
    proof (cases "sc_err s1 \<noteq> None")
      case True
      then show ?thesis using "1.prems" Continue by auto
    next
      case False
      show ?thesis
      proof (cases "make_room s1")
        case (Return b0 s0)
        then have "b = b0" "s' = s0" "r' = r" using "1.prems" Continue False by simp_all
        then show ?thesis using make_room_Return [OF Return] c1 by auto
      next
        case c: (Continue s2)
        note c2 = make_room_Continue [OF c]
        obtain s3 r3 where f: "fill s2 r = (s3, r3)" by (cases "fill s2 r")
        have "Scan_loop s3 r3 = (b, s', r')" using "1.prems" Continue False c f by simp
        from "1.IH" [OF Continue False c f [symmetric] this]
        have "length (sc_data s') + length r' \<le> length (sc_data s3) + length r3
          \<and> (b = Inr True \<longrightarrow> length (sc_data s') + length r' < length (sc_data s3) + length r3)" .
        moreover have "length (sc_data s3) + length r3 = length (sc_data s) + length r"
          using fill_content [OF f] c1 c2 by (metis length_append)
        ultimately show ?thesis by simp
      qed
    qed
  qed
qed

lemma Scan_consumes:
  "Scan s r = (Inr True, s', r') \<Longrightarrow>
     length (sc_data s') + length r' < length (sc_data s) + length r"
  using Scan_loop_consumes [of s r "Inr True" s' r']
  by (auto simp: Scan_def split: if_splits)

subsection \<open>Draining the buffer\<close>

text \<open>
  The loop \<open>for scanner.Scan() { ... }\<close> of \<open>ProcessLines\<close> with what follows it. \<open>r\<close> is
  the unread content of the proxy's buffer and \<open>c\<close> the connection; the result is what
  \<open>ProcessLines\<close> returns, with the buffer and the connection as it leaves them. Indexing
  the last byte of an empty transformed line panics.
\<close>

function lines_loop ::
  "(string \<Rightarrow> 'e + string) \<Rightarrow> Scanner \<Rightarrow> string \<Rightarrow> conn \<Rightarrow> 'e result \<times> string \<times> conn" where
  "lines_loop processFunc sc r c =
     (case Scan sc r of (b, sc', r') \<Rightarrow>
        (case b of
           Inl p \<Rightarrow> (Panic p, r', c)
         | Inr got \<Rightarrow>
             if \<not> got then
               (case ScannerErr sc' of
                  Some e \<Rightarrow> (Err (Wrapped ErrSyslogProcessHandleResult (ScanErr e)), r', c)
                | None \<Rightarrow> (Nil, r', c))
             else if sc_token sc' \<noteq> [] then
               (case processFunc (sc_token sc') of
                  Inl e \<Rightarrow> (Err (UserErr e), r', c)
                | Inr line \<Rightarrow>
                    (case Write c line of
                       (Some e, c1) \<Rightarrow> (Err (Wrapped ErrSyslogWrite (IOErr e)), r', c1)
                     | (None, c1) \<Rightarrow>
                         if line = [] then (Panic IndexOutOfRange, r', c1)
                         else if last line \<noteq> NL then
                           (case Write c1 [NL] of
                              (Some e, c2) \<Rightarrow> (Err (Wrapped ErrSyslogWrite (IOErr e)), r', c2)
                            | (None, c2) \<Rightarrow> lines_loop processFunc sc' r' c2)
                         else lines_loop processFunc sc' r' c1))
             else lines_loop processFunc sc' r' c))"
  by pat_completeness auto
termination
proof (relation "measure (\<lambda>(f, sc, r, c). length (sc_data sc) + length r)", goal_cases)
  case 1
  show ?case by simp
next
  case (2 f sc r c x b sc' r')
  then show ?case using Scan_consumes [of sc r sc' r'] by auto
next
  case (3 f sc r c x b sc' r')
  then show ?case using Scan_consumes [of sc r sc' r'] by auto
next
  case (4 f sc r c x b sc' r')
  then show ?case using Scan_consumes [of sc r sc' r'] by auto
qed

text \<open>
  \<open>ProcessLines\<close>; \<open>now\<close> is what \<open>time.Now()\<close> returns. The scanner is local to the call:
  what it has read from the buffer and not handed out is gone when the call returns.
\<close>

definition ProcessLines ::
  "int \<Rightarrow> SyslogProxy \<Rightarrow> (string \<Rightarrow> 'e + string) \<Rightarrow> 'e result \<times> SyslogProxy" where
  "ProcessLines now s processFunc =
     (if \<not> IsConnected s then (Err (Wrapped ErrSyslogConnection NotConnected), s)
      else case SetWriteDeadline (the (conn s)) (now + timeout s) of
             (Some e, c) \<Rightarrow> (Err (Wrapped ErrSyslogConnection (IOErr e)), s\<lparr>conn := Some c\<rparr>)
           | (None, c) \<Rightarrow>
               (case lines_loop processFunc NewScanner (buf s) c of
                  (res, r', c') \<Rightarrow> (res, s\<lparr>buf := r', conn := Some c'\<rparr>)))"

subsection \<open>Connecting\<close>

text \<open>The fields of \<open>url.URL\<close> that \<open>Connect\<close> reads.\<close>

record URL =
  Scheme :: string
  Host :: string
  Path :: string

definition allowedProto :: "string list" where
  "allowedProto = [''tcp'', ''udp'', ''unix'']"

definition Lock :: "SyslogProxy \<Rightarrow> SyslogProxy" where
  "Lock s = s\<lparr>mu := \<lparr>locked = True, acquisitions = Suc (acquisitions (mu s))\<rparr>\<rparr>"

definition Unlock :: "SyslogProxy \<Rightarrow> SyslogProxy" where
  "Unlock s = s\<lparr>mu := (mu s)\<lparr>locked := False\<rparr>\<rparr>"

text \<open>
  \<open>Connect\<close>. \<open>urlParse\<close> stands for \<open>net/url.Parse\<close> (modelled as \<open>Parse\<close> below) and \<open>dial\<close>
  for \<open>net.DialTimeout\<close>, each returning \<open>Inl\<close> its error; \<open>defaultDialTimeout\<close> is a
  constant of the package declared in another file. \<open>Lock\<close> on a mutex that is held does
  not return.
\<close>

definition Connect ::
  "(string \<Rightarrow> url_error + URL) \<Rightarrow> (string \<Rightarrow> string \<Rightarrow> int \<Rightarrow> string + conn) \<Rightarrow> int
     \<Rightarrow> SyslogProxy \<Rightarrow> string \<Rightarrow> int \<Rightarrow> 'e result \<times> SyslogProxy" where
  "Connect urlParse dial defaultDialTimeout s url0 timeout0 =
     (let url1 = (if url0 = [] then url s else url0)
      in case urlParse url1 of
           Inl err \<Rightarrow> (Err (Wrapped ErrSyslogURLparse (URLWrong url1 err)), s)
         | Inr u \<Rightarrow>
             if Scheme u \<notin> set allowedProto
             then (Err (Wrapped ErrSyslogURLparse (UnsupportedProto url1 (Scheme u))), s)
             else let proto = Scheme u;
                      addr = (if proto = ''unix'' then Path u else Host u);
                      s1 = s\<lparr>url := proto @ ''://'' @ addr\<rparr>;
                      timeout1 = (if timeout0 = 0 then defaultDialTimeout else timeout0)
                  in case dial proto addr timeout1 of
                       Inl err \<Rightarrow> (Err (Wrapped ErrSyslogConnection (IOErr err)), s1)
                     | Inr c \<Rightarrow>
                         if locked (mu s1) then (Blocked, s1)
                         else (Nil, Unlock ((Disconnect (Lock s1))
                                 \<lparr>conn := Some c, timeout := timeout1\<rparr>)))"

subsection \<open>Handling a record\<close>

text \<open>
  \<open>SyslogHandler.Handle\<close>, on the handler and the proxy it points to. The wrapped
  handler's output is appended to the proxy's buffer; the deferred \<open>Unlock\<close> runs on
  every way out after \<open>Lock\<close>.
\<close>

definition Handle ::
  "int \<Rightarrow> ('r, 'e) SyslogHandler \<Rightarrow> 'r \<Rightarrow> SyslogProxy
     \<Rightarrow> 'e result \<times> ('r, 'e) SyslogHandler \<times> SyslogProxy" where
  "Handle now h r px =
     (if \<not> IsConnected px then (Err (Wrapped ErrSyslogConnection NotConnected), h, px)
      else if locked (mu px) then (Blocked, h, px)
      else let px1 = Lock px;
               (out, err) = d_handle (handler h) r;
               h1 = h\<lparr>handler := (handler h)\<lparr>d_calls := Suc (d_calls (handler h))\<rparr>\<rparr>;
               px2 = px1\<lparr>buf := buf px1 @ out\<rparr>
           in case err of
                Some e \<Rightarrow> (Err (Wrapped ErrSyslogHandle (Downstream e)), h1, Unlock px2)
              | None \<Rightarrow>
                  (case ProcessLines now px2 (lineProcessFunc h) of
                     (res, px3) \<Rightarrow> (res, h1, Unlock px3)))"

section \<open>Parsing the destination\<close>

text \<open>
  \<open>Connect\<close> parses its destination with \<open>net/url.Parse\<close> of the Go standard library
  (go 1.21, the version of \<open>go.mod\<close>). The model follows \<open>Parse\<close>, \<open>parse\<close>, \<open>getScheme\<close>,
  \<open>parseAuthority\<close>, \<open>parseHost\<close>, \<open>unescape\<close> and \<open>shouldEscape\<close> of \<open>net/url\<close>, and computes
  the three fields of the result that \<open>Connect\<close> reads, and its error.
\<close>

subsection \<open>Strings\<close>

definition HasPrefix :: "string \<Rightarrow> string \<Rightarrow> bool" where
  "HasPrefix s p = (take (length p) s = p)"

definition HasSuffix :: "string \<Rightarrow> string \<Rightarrow> bool" where
  "HasSuffix s p = (length p \<le> length s \<and> drop (length s - length p) s = p)"

text \<open>\<open>strings.Cut\<close> with a separator of one byte: before, after, found.\<close>

definition Cut :: "string \<Rightarrow> char \<Rightarrow> string \<times> string \<times> bool" where
  "Cut s sep =
     (if sep \<in> set s
      then (takeWhile (\<lambda>x. x \<noteq> sep) s, tl (dropWhile (\<lambda>x. x \<noteq> sep) s), True)
      else (s, [], False))"

text \<open>\<open>strings.LastIndex\<close> with a separator of one byte.\<close>

definition LastIndex :: "string \<Rightarrow> char \<Rightarrow> nat option" where
  "LastIndex s c =
     (if c \<in> set s then Some (length s - 1 - length (takeWhile (\<lambda>x. x \<noteq> c) (rev s)))
      else None)"

text \<open>\<open>strings.Index\<close>: where \<open>pat\<close> first occurs in \<open>s\<close>.\<close>

fun Index :: "string \<Rightarrow> string \<Rightarrow> nat option" where
  "Index [] pat = (if pat = [] then Some 0 else None)"
| "Index (x # xs) pat =
     (if HasPrefix (x # xs) pat then Some 0 else map_option Suc (Index xs pat))"

definition is_upper :: "char \<Rightarrow> bool" where
  "is_upper c = (65 \<le> (of_char c :: nat) \<and> (of_char c :: nat) \<le> 90)"

definition is_lower :: "char \<Rightarrow> bool" where
  "is_lower c = (97 \<le> (of_char c :: nat) \<and> (of_char c :: nat) \<le> 122)"

definition is_digit :: "char \<Rightarrow> bool" where
  "is_digit c = (48 \<le> (of_char c :: nat) \<and> (of_char c :: nat) \<le> 57)"

text \<open>\<open>strings.ToLower\<close>, on the bytes of a scheme, which are ASCII.\<close>

definition ToLower :: "string \<Rightarrow> string" where
  "ToLower s = map (\<lambda>c. if is_upper c then char_of ((of_char c :: nat) + 32) else c) s"

subsection \<open>Percent escapes\<close>

datatype encoding =
  encodePath | encodePathSegment | encodeHost | encodeZone | encodeUserPassword
  | encodeQueryComponent | encodeFragment

definition ishex :: "char \<Rightarrow> bool" where
  "ishex c = (is_digit c
     \<or> (97 \<le> (of_char c :: nat) \<and> (of_char c :: nat) \<le> 102)
     \<or> (65 \<le> (of_char c :: nat) \<and> (of_char c :: nat) \<le> 70))"

definition unhex :: "char \<Rightarrow> nat" where
  "unhex c =
     (if is_digit c then of_char c - 48
      else if 97 \<le> (of_char c :: nat) \<and> (of_char c :: nat) \<le> 102 then of_char c - 97 + 10
      else if 65 \<le> (of_char c :: nat) \<and> (of_char c :: nat) \<le> 70 then of_char c - 65 + 10
      else 0)"

text \<open>
  \<open>shouldEscape(c, encodeHost)\<close>, the only mode \<open>unescape\<close> calls it with: letters and
  digits, the sub-delimiters and \<open>: [ ] < > "\<close> that a host may hold, and \<open>- _ . ~\<close> need
  no escape; every other byte does.
\<close>

definition shouldEscapeHost :: "char \<Rightarrow> bool" where
  "shouldEscapeHost c =
     (\<not> (is_lower c \<or> is_upper c \<or> is_digit c
         \<or> c \<in> set (''!$&()*+,;=:[]<>'' @ [CHR 0x27, CHR 0x22])
         \<or> c \<in> set ''-_.~''))"

text \<open>
  The first pass of \<open>unescape\<close>: every \<open>%\<close> must begin a well-formed escape; in a host an
  escape may only stand for a byte from \<open>0x80\<close> on, or be \<open>%25\<close>; in a zone it may only
  stand for a byte a host may hold, or a space, or be \<open>%25\<close>; and a host or zone holds no
  ASCII byte that would need an escape.
\<close>

fun unescape_check :: "encoding \<Rightarrow> string \<Rightarrow> url_error option" where
  "unescape_check mode [] = None"
| "unescape_check mode (c # s) =
     (if c = CHR ''%'' then
        (case s of
           h1 # h2 # rest \<Rightarrow>
             if \<not> ishex h1 \<or> \<not> ishex h2 then Some (EscapeError [c, h1, h2])
             else if mode = encodeHost \<and> unhex h1 < 8 \<and> [c, h1, h2] \<noteq> ''%25''
             then Some (EscapeError [c, h1, h2])
             else if mode = encodeZone \<and> [c, h1, h2] \<noteq> ''%25''
                     \<and> char_of (unhex h1 * 16 + unhex h2) \<noteq> CHR '' ''
                     \<and> shouldEscapeHost (char_of (unhex h1 * 16 + unhex h2))
             then Some (EscapeError [c, h1, h2])
             else unescape_check mode rest
         | _ \<Rightarrow> Some (EscapeError (c # s)))
      else if (mode = encodeHost \<or> mode = encodeZone) \<and> (of_char c :: nat) < 0x80
              \<and> shouldEscapeHost c
      then Some (InvalidHostError [c])
      else unescape_check mode s)"

text \<open>The second pass: the bytes with the escapes replaced.\<close>

fun unescape_bytes :: "encoding \<Rightarrow> string \<Rightarrow> string" where
  "unescape_bytes mode [] = []"
| "unescape_bytes mode (c # s) =
     (if c = CHR ''%'' then
        (case s of
           h1 # h2 # rest \<Rightarrow> char_of (unhex h1 * 16 + unhex h2) # unescape_bytes mode rest
         | _ \<Rightarrow> [])
      else if c = CHR ''+'' then
        (if mode = encodeQueryComponent then CHR '' '' else CHR ''+'') # unescape_bytes mode s
      else c # unescape_bytes mode s)"

definition unescape :: "string \<Rightarrow> encoding \<Rightarrow> url_error + string" where
  "unescape s mode =
     (case unescape_check mode s of Some e \<Rightarrow> Inl e | None \<Rightarrow> Inr (unescape_bytes mode s))"

subsection \<open>Scheme, authority and host\<close>

text \<open>
  \<open>getScheme\<close>: \<open>pre\<close> is \<open>rawURL[:i]\<close> and the second argument \<open>rawURL[i:]\<close>. The result is
  the scheme and what follows its colon, or no scheme and the whole of \<open>rawURL\<close>.
\<close>

fun getScheme_from :: "string \<Rightarrow> string \<Rightarrow> string \<Rightarrow> url_error + string \<times> string" where
  "getScheme_from pre [] rawURL = Inr ([], rawURL)"
| "getScheme_from pre (c # cs) rawURL =
     (if is_lower c \<or> is_upper c then getScheme_from (pre @ [c]) cs rawURL
      else if is_digit c \<or> c = CHR ''+'' \<or> c = CHR ''-'' \<or> c = CHR ''.'' then
        (if pre = [] then Inr ([], rawURL) else getScheme_from (pre @ [c]) cs rawURL)
      else if c = CHR '':'' then
        (if pre = [] then Inl MissingProtocolScheme else Inr (pre, cs))
      else Inr ([], rawURL))"

definition getScheme :: "string \<Rightarrow> url_error + string \<times> string" where
  "getScheme rawURL = getScheme_from [] rawURL rawURL"

definition validOptionalPort :: "string \<Rightarrow> bool" where
  "validOptionalPort port =
     (case port of [] \<Rightarrow> True | c # ds \<Rightarrow> c = CHR '':'' \<and> (\<forall>b\<in>set ds. is_digit b))"

definition parseHost :: "string \<Rightarrow> url_error + string" where
  "parseHost host =
     (if HasPrefix host ''['' then
        (case LastIndex host (CHR '']'') of
           None \<Rightarrow> Inl MissingBracket
         | Some i \<Rightarrow>
             if \<not> validOptionalPort (drop (i + 1) host)
             then Inl (InvalidPort (drop (i + 1) host))
             else (case Index (take i host) ''%25'' of
                     Some zone \<Rightarrow>
                       (case unescape (take zone host) encodeHost of
                          Inl e \<Rightarrow> Inl e
                        | Inr host1 \<Rightarrow>
                            (case unescape (drop zone (take i host)) encodeZone of
                               Inl e \<Rightarrow> Inl e
                             | Inr host2 \<Rightarrow>
                                 (case unescape (drop i host) encodeHost of
                                    Inl e \<Rightarrow> Inl e
                                  | Inr host3 \<Rightarrow> Inr (host1 @ host2 @ host3))))
                   | None \<Rightarrow> unescape host encodeHost))
      else (case LastIndex host (CHR '':'') of
              Some i \<Rightarrow>
                if \<not> validOptionalPort (drop i host) then Inl (InvalidPort (drop i host))
                else unescape host encodeHost
            | None \<Rightarrow> unescape host encodeHost))"

definition validUserinfo :: "string \<Rightarrow> bool" where
  "validUserinfo s =
     (\<forall>r\<in>set s. is_upper r \<or> is_lower r \<or> is_digit r
                 \<or> r \<in> set (''-._:~!$&()*+,;=%@'' @ [CHR 0x27]))"

text \<open>\<open>parseAuthority\<close>: the host; the user information is checked and not kept.\<close>

definition parseAuthority :: "string \<Rightarrow> url_error + string" where
  "parseAuthority authority =
     (case LastIndex authority (CHR ''@'') of
        None \<Rightarrow> parseHost authority
      | Some i \<Rightarrow>
          (case parseHost (drop (i + 1) authority) of
             Inl e \<Rightarrow> Inl e
           | Inr host \<Rightarrow>
               if \<not> validUserinfo (take i authority) then Inl InvalidUserinfo
               else if CHR '':'' \<notin> set (take i authority) then
                 (case unescape (take i authority) encodeUserPassword of
                    Inl e \<Rightarrow> Inl e
                  | Inr userinfo \<Rightarrow> Inr host)
               else (case Cut (take i authority) (CHR '':'') of
                       (username, password, found) \<Rightarrow>
                         (case unescape username encodeUserPassword of
                            Inl e \<Rightarrow> Inl e
                          | Inr u \<Rightarrow>
                              (case unescape password encodeUserPassword of
                                 Inl e \<Rightarrow> Inl e
                               | Inr p \<Rightarrow> Inr host)))))"

subsection \<open>The URL\<close>

definition stringContainsCTLByte :: "string \<Rightarrow> bool" where
  "stringContainsCTLByte s = (\<exists>b\<in>set s. (of_char b :: nat) < 0x20 \<or> (of_char b :: nat) = 0x7f)"

text \<open>
  \<open>parse(rawURL, false)\<close>. A URL with a scheme whose rest does not begin with a slash is
  opaque: it has neither host nor path.
\<close>

definition parse :: "string \<Rightarrow> url_error + URL" where
  "parse rawURL =
     (if stringContainsCTLByte rawURL then Inl InvalidControlCharacter
      else if rawURL = ''*'' then Inr \<lparr>Scheme = [], Host = [], Path = ''*''\<rparr>
      else case getScheme rawURL of
             Inl e \<Rightarrow> Inl e
           | Inr (scheme0, rest0) \<Rightarrow>
               let scheme = ToLower scheme0;
                   rest = (if HasSuffix rest0 ''?'' \<and> count_list rest0 (CHR ''?'') = 1
                           then butlast rest0 else fst (Cut rest0 (CHR ''?'')))
               in if \<not> HasPrefix rest ''/'' \<and> scheme \<noteq> []
                  then Inr \<lparr>Scheme = scheme, Host = [], Path = []\<rparr>
                  else if \<not> HasPrefix rest ''/'' \<and> CHR '':'' \<in> set (fst (Cut rest (CHR ''/'')))
                  then Inl FirstPathSegmentColon
                  else if (scheme \<noteq> [] \<or> \<not> HasPrefix rest ''///'') \<and> HasPrefix rest ''//''
                  then
                    (let authority0 = drop 2 rest;
                         authority = (case IndexByte authority0 (CHR ''/'') of
                                        Some i \<Rightarrow> take i authority0 | None \<Rightarrow> authority0);
                         rest1 = (case IndexByte authority0 (CHR ''/'') of
                                    Some i \<Rightarrow> drop i authority0 | None \<Rightarrow> [])
                     in case parseAuthority authority of
                          Inl e \<Rightarrow> Inl e
                        | Inr host \<Rightarrow>
                            (case unescape rest1 encodePath of
                               Inl e \<Rightarrow> Inl e
                             | Inr path \<Rightarrow> Inr \<lparr>Scheme = scheme, Host = host, Path = path\<rparr>))
                  else (case unescape rest encodePath of
                          Inl e \<Rightarrow> Inl e
                        | Inr path \<Rightarrow> Inr \<lparr>Scheme = scheme, Host = [], Path = path\<rparr>))"

text \<open>\<open>Parse\<close>: the fragment is cut off and checked, the rest parsed.\<close>

definition Parse :: "string \<Rightarrow> url_error + URL" where
  "Parse rawURL =
     (case Cut rawURL (CHR ''#'') of
        (u, frag, found) \<Rightarrow>
          (case parse u of
             Inl e \<Rightarrow> Inl e
           | Inr parsed \<Rightarrow>
               if frag = [] then Inr parsed
               else (case unescape frag encodeFragment of
                       Inl e \<Rightarrow> Inl e
                     | Inr f \<Rightarrow> Inr parsed)))"

section \<open>Vocabulary of the statements\<close>

text \<open>
  The invariant of a scanner \<open>s\<close> reading a buffer with unread content \<open>r\<close>, between the
  calls of \<open>Scan\<close> that \<open>ProcessLines\<close> makes: its window lies within its buffer, the
  buffer is not larger than the largest token, and its only error so far is the end of
  the input.
\<close>

definition scan_inv :: "Scanner \<Rightarrow> string \<Rightarrow> bool" where
  "scan_inv s r \<longleftrightarrow>
     \<not> sc_done s \<and> sc_end s \<le> sc_buflen s \<and> sc_buflen s \<le> MaxScanTokenSize
     \<and> (sc_err s = None \<or> sc_err s = Some EOF \<and> r = [])"

text \<open>
  The \<open>Write\<close> calls that \<open>ProcessLines\<close> makes for one token \<open>t\<close> when the line function
  accepts it and the writes succeed: none for an empty token, else the transformed line,
  followed by a newline of its own when the transformed line does not end in one.
\<close>

definition frames :: "(string \<Rightarrow> 'e + string) \<Rightarrow> string \<Rightarrow> string list" where
  "frames processFunc t =
     (if t = [] then []
      else case processFunc t of
             Inl e \<Rightarrow> []
           | Inr line \<Rightarrow> if line = [] then [line]
                         else if last line \<noteq> NL then [line, [NL]] else [line])"

text \<open>A token is accepted when the line function returns a line that is not empty.\<close>

definition accepted :: "(string \<Rightarrow> 'e + string) \<Rightarrow> string \<Rightarrow> bool" where
  "accepted processFunc t \<longleftrightarrow>
     (t \<noteq> [] \<longrightarrow> (case processFunc t of Inl e \<Rightarrow> False | Inr line \<Rightarrow> line \<noteq> []))"



text \<open>
  An example: a proxy connected over UDP, on which every write succeeds, whose buffer
  holds \<open>b\<close>.
\<close>

definition demo_conn :: conn where
  "demo_conn = \<lparr>network = ''udp'', address = ''192.0.2.1:514'', sent = [], wdeadline = None,
     faults = []\<rparr>"

definition demo_proxy :: "string \<Rightarrow> SyslogProxy" where
  "demo_proxy b = \<lparr>buf = b, lineProcessBuf = [], priority = 14, tag = ''prog'',
     url = ''udp://192.0.2.1:514'', conn = Some demo_conn, useLocalTZ = False, timeout = 5,
     mu = \<lparr>locked = False, acquisitions = 0\<rparr>\<rparr>"

text \<open>A dial that always succeeds, and a proxy that has never been connected.\<close>

definition demo_dial :: "string \<Rightarrow> string \<Rightarrow> int \<Rightarrow> string + conn" where
  "demo_dial n a t = Inr (demo_conn\<lparr>network := n, address := a\<rparr>)"

definition fresh_proxy :: SyslogProxy where
  "fresh_proxy = (demo_proxy [])\<lparr>url := [], conn := None, timeout := 0\<rparr>"

text \<open>
  A wrapped handler with the policy \<open>en\<close>, which renders a record as a line; and the
  allocation limit of 64-bit Linux.
\<close>

definition demo_downstream :: "(int \<Rightarrow> bool) \<Rightarrow> (string, unit) downstream" where
  "demo_downstream en = \<lparr>d_enabled = en, d_handle = (\<lambda>r. (r @ [NL], None)), d_calls = 0\<rparr>"

definition demo_maxAlloc :: int where
  "demo_maxAlloc = 2 ^ 48"

section \<open>What the scanner returns\<close>

declare Scan_loop.simps [simp del]
declare lines_loop.simps [simp del]

lemma scan_inv_NewScanner: "scan_inv NewScanner r"
  by (simp add: scan_inv_def NewScanner_def sc_end_def)

lemma IndexByte_found: "c \<notin> set l \<Longrightarrow> IndexByte (l @ c # d) c = Some (length l)"
proof -
  assume "c \<notin> set l"
  then have "takeWhile (\<lambda>x. x \<noteq> c) l = l" by (auto simp: takeWhile_eq_all_conv)
  then show ?thesis by (simp add: IndexByte_def takeWhile_tail)
qed

lemma IndexByte_none: "c \<notin> set l \<Longrightarrow> IndexByte l c = None"
  by (simp add: IndexByte_def)

lemma split_line_in:
  assumes "d @ r = l @ NL # rest" "NL \<notin> set l" "NL \<in> set d"
  shows "\<exists>d'. d = l @ NL # d' \<and> rest = d' @ r"
proof -
  from assms(1) obtain us where
    "d = l @ us \<and> us @ r = NL # rest \<or> d @ us = l \<and> r = us @ NL # rest"
    by (auto simp: append_eq_append_conv2)
  then show ?thesis
  proof
    assume a: "d = l @ us \<and> us @ r = NL # rest"
    then have "us \<noteq> []" using assms(2,3) by auto
    then obtain d' where "us = NL # d'" using a by (cases us) auto
    then show ?thesis using a by auto
  next
    assume "d @ us = l \<and> r = us @ NL # rest"
    then show ?thesis using assms(2,3) by auto
  qed
qed

lemma split_line_out:
  assumes "d @ r = l @ NL # rest" "NL \<notin> set d"
  shows "r \<noteq> [] \<and> length d \<le> length l"
proof -
  from assms(1) obtain us where
    "d = l @ us \<and> us @ r = NL # rest \<or> d @ us = l \<and> r = us @ NL # rest"
    by (auto simp: append_eq_append_conv2)
  then show ?thesis
  proof
    assume a: "d = l @ us \<and> us @ r = NL # rest"
    then have "us = []" using assms(2) by (cases us) auto
    then show ?thesis using a by auto
  next
    assume "d @ us = l \<and> r = us @ NL # rest"
    then show ?thesis by auto
  qed
qed

lemma try_token_line:
  assumes "sc_data s = l @ NL # d'" "NL \<notin> set l"
  shows "try_token s = Return (Inr True)
           (s\<lparr>sc_start := sc_start s + (length l + 1), sc_data := d',
               sc_token := dropCR l, sc_empties := 0\<rparr>)"
  using assms
  by (simp add: try_token_def sc_end_def ScanLines_def IndexByte_found advance_def)

lemma try_token_more:
  assumes "NL \<notin> set (sc_data s)" "sc_err s = None"
  shows "\<exists>s1. try_token s = Continue s1 \<and> sc_data s1 = sc_data s \<and> sc_err s1 = None
           \<and> sc_start s1 = sc_start s \<and> sc_buflen s1 = sc_buflen s \<and> sc_done s1 = sc_done s"
  using assms
  by (simp add: try_token_def sc_end_def ScanLines_def IndexByte_none advance_def)



lemma make_room_ok:
  assumes "sc_end s \<le> sc_buflen s" "sc_buflen s \<le> MaxScanTokenSize"
    "length (sc_data s) < MaxScanTokenSize"
  shows "\<exists>s2. make_room s = Continue s2 \<and> sc_data s2 = sc_data s \<and> sc_err s2 = sc_err s
           \<and> sc_done s2 = sc_done s \<and> sc_end s2 < sc_buflen s2
           \<and> sc_buflen s2 \<le> MaxScanTokenSize"
  using assms
  by (auto simp: make_room_def Let_def sc_end_def MaxScanTokenSize_def startBufSize_def
      maxInt_def)

lemma fill_some:
  assumes "r \<noteq> []" "sc_end s < sc_buflen s"
  shows "\<exists>s3 r3. fill s r = (s3, r3) \<and> sc_data s3 @ r3 = sc_data s @ r
           \<and> sc_end s3 \<le> sc_buflen s3 \<and> sc_buflen s3 = sc_buflen s
           \<and> sc_err s3 = sc_err s \<and> sc_done s3 = sc_done s"
  using assms by (auto simp: fill_def Let_def sc_end_def min_def)



text \<open>
  A line that ends in a newline and is shorter than the largest token is the next token,
  without the newline and without a carriage return before it.
\<close>

lemma Scan_loop_line:
  assumes "scan_inv s r" "sc_data s @ r = l @ NL # rest" "NL \<notin> set l"
    "length l < MaxScanTokenSize"
  shows "\<exists>s' r'. Scan_loop s r = (Inr True, s', r') \<and> sc_token s' = dropCR l
           \<and> sc_data s' @ r' = rest \<and> scan_inv s' r'"
  using assms
proof (induction s r rule: Scan_loop.induct)
  case (1 s r)
  show ?case
  proof (cases "NL \<in> set (sc_data s)")
    case True
    obtain d' where d: "sc_data s = l @ NL # d'" "rest = d' @ r"
      using split_line_in [OF "1.prems"(2,3) True] by auto
    let ?s' = "s\<lparr>sc_start := sc_start s + (length l + 1), sc_data := d',
               sc_token := dropCR l, sc_empties := 0\<rparr>"
    have "Scan_loop s r = (Inr True, ?s', r)"
      by (subst Scan_loop.simps) (simp add: try_token_line [OF d(1) "1.prems"(3)])
    moreover have "scan_inv ?s' r"
      using "1.prems"(1) d(1) by (simp add: scan_inv_def sc_end_def)
    ultimately show ?thesis using d(2) by simp
  next
    case False
    have e: "sc_err s = None"
      using "1.prems"(1,2) False by (auto simp: scan_inv_def)
    have r: "r \<noteq> []" "length (sc_data s) \<le> length l"
      using split_line_out [OF "1.prems"(2) False] by auto
    obtain s1 where s1: "try_token s = Continue s1" "sc_data s1 = sc_data s" "sc_err s1 = None"
      "sc_start s1 = sc_start s" "sc_buflen s1 = sc_buflen s" "sc_done s1 = sc_done s"
      using try_token_more [OF False e] by auto
    have "sc_end s1 \<le> sc_buflen s1" "sc_buflen s1 \<le> MaxScanTokenSize"
      "length (sc_data s1) < MaxScanTokenSize"
      using "1.prems"(1,4) s1 r(2) by (auto simp: scan_inv_def sc_end_def)
    from make_room_ok [OF this]
    obtain s2 where s2: "make_room s1 = Continue s2" "sc_data s2 = sc_data s1"
      "sc_err s2 = sc_err s1" "sc_done s2 = sc_done s1" "sc_end s2 < sc_buflen s2"
      "sc_buflen s2 \<le> MaxScanTokenSize" by auto
    from fill_some [OF r(1) s2(5)]
    obtain s3 r3 where s3: "fill s2 r = (s3, r3)" "sc_data s3 @ r3 = sc_data s2 @ r"
      "sc_end s3 \<le> sc_buflen s3" "sc_buflen s3 = sc_buflen s2" "sc_err s3 = sc_err s2"
      "sc_done s3 = sc_done s2" by auto
    have step: "Scan_loop s r = Scan_loop s3 r3"
      by (subst Scan_loop.simps) (simp add: s1 s2 s3)
    have inv: "scan_inv s3 r3"
      using "1.prems"(1) s1 s2 s3 by (simp add: scan_inv_def)
    have c: "sc_data s3 @ r3 = l @ NL # rest"
      using s3(2) s2(2) s1(2) "1.prems"(2) by simp
    have n: "\<not> sc_err s1 \<noteq> None" using s1(3) by simp
    from "1.IH" [OF s1(1) n s2(1) s3(1) [symmetric] inv c "1.prems"(3,4)]
    show ?thesis using step by simp
  qed
qed



lemma Scan_line:
  assumes "scan_inv s r" "sc_data s @ r = l @ NL # rest" "NL \<notin> set l"
    "length l < MaxScanTokenSize"
  shows "\<exists>s' r'. Scan s r = (Inr True, s', r') \<and> sc_token s' = dropCR l
           \<and> sc_data s' @ r' = rest \<and> scan_inv s' r'"
  using Scan_loop_line [OF assms] assms(1) by (simp add: Scan_def scan_inv_def)



text \<open>\<open>Scan\<close> with \<open>ScanLines\<close> never panics.\<close>

lemma try_token_no_panic: "try_token s \<noteq> Return (Inl p) s'"
  by (auto simp: try_token_def advance_def ScanLines_def setErr_def sc_end_def IndexByte_def
      split: if_splits prod.splits option.splits bool.splits)

lemma Scan_loop_no_panic: "Scan_loop s r = (b, s', r') \<Longrightarrow> b \<noteq> Inl p"
proof (induction s r rule: Scan_loop.induct)
  case (1 s r)
  show ?case
  proof (cases "try_token s")
    case (Return b0 s0)
    then have "b = b0" using "1.prems" by (subst (asm) Scan_loop.simps) simp
    then show ?thesis using try_token_no_panic [of s p s0] Return "1.prems"
      by (subst (asm) Scan_loop.simps) auto
  next
    case (Continue s1)
    show ?thesis
    proof (cases "sc_err s1 \<noteq> None")
      case True
      then show ?thesis using "1.prems" Continue by (subst (asm) Scan_loop.simps) auto
    next
      case False
      show ?thesis
      proof (cases "make_room s1")
        case (Return b0 s0)
        then show ?thesis using "1.prems" Continue False make_room_Return [OF Return]
          by (subst (asm) Scan_loop.simps) auto
      next
        case c: (Continue s2)
        obtain s3 r3 where f: "fill s2 r = (s3, r3)" by (cases "fill s2 r")
        have "Scan_loop s3 r3 = (b, s', r')"
          using "1.prems" Continue False c f by (subst (asm) Scan_loop.simps) simp
        from "1.IH" [OF Continue False c f [symmetric] this] show ?thesis .
      qed
    qed
  qed
qed

lemma Scan_no_panic: "Scan s r = (b, s', r') \<Longrightarrow> b \<noteq> Inl p"
  using Scan_loop_no_panic [of s r b s' r' p] by (auto simp: Scan_def split: if_splits)

section \<open>What the drain writes\<close>

lemma sent_same: "c\<lparr>sent := sent c\<rparr> = c"
  by simp

lemma lines_loop_line:
  assumes "scan_inv sc r" "sc_data sc @ r = l @ NL # rest" "NL \<notin> set l"
    "length l < MaxScanTokenSize" "faults c = []" "accepted f (dropCR l)"
  shows "\<exists>sc' r'. scan_inv sc' r' \<and> sc_data sc' @ r' = rest
           \<and> lines_loop f sc r c = lines_loop f sc' r' (c\<lparr>sent := sent c @ frames f (dropCR l)\<rparr>)"
proof -
  from Scan_line [OF assms(1-4)]
  obtain sc' r' where s: "Scan sc r = (Inr True, sc', r')" "sc_token sc' = dropCR l"
    "sc_data sc' @ r' = rest" "scan_inv sc' r'" by auto
  have "lines_loop f sc r c = lines_loop f sc' r' (c\<lparr>sent := sent c @ frames f (dropCR l)\<rparr>)"
    using assms(5,6)
    by (subst lines_loop.simps)
      (auto simp: s(1,2) frames_def accepted_def Write_def next_fault_def split: sum.splits)
  then show ?thesis using s(3,4) by auto
qed

lemma lines_loop_prefix:
  assumes "scan_inv sc r" "sc_data sc @ r = concat (map (\<lambda>l. l @ [NL]) ls) @ rest"
    "\<forall>l\<in>set ls. NL \<notin> set l \<and> length l < MaxScanTokenSize \<and> accepted f (dropCR l)"
    "faults c = []"
  shows "\<exists>sc' r'. scan_inv sc' r' \<and> sc_data sc' @ r' = rest
           \<and> lines_loop f sc r c
             = lines_loop f sc' r'
                 (c\<lparr>sent := sent c @ concat (map (\<lambda>l. frames f (dropCR l)) ls)\<rparr>)"
  using assms
proof (induction ls arbitrary: sc r c)
  case Nil
  then show ?case by auto
next
  case (Cons l ls)
  have c: "sc_data sc @ r = l @ NL # (concat (map (\<lambda>l. l @ [NL]) ls) @ rest)"
    using Cons.prems(2) by simp
  have l: "NL \<notin> set l" "length l < MaxScanTokenSize" "accepted f (dropCR l)"
    using Cons.prems(3) by auto
  from lines_loop_line [OF Cons.prems(1) c l(1,2) Cons.prems(4) l(3)]
  obtain sc1 r1 where s1: "scan_inv sc1 r1"
    "sc_data sc1 @ r1 = concat (map (\<lambda>l. l @ [NL]) ls) @ rest"
    "lines_loop f sc r c = lines_loop f sc1 r1 (c\<lparr>sent := sent c @ frames f (dropCR l)\<rparr>)"
    by auto
  let ?c1 = "c\<lparr>sent := sent c @ frames f (dropCR l)\<rparr>"
  have f1: "faults ?c1 = []" using Cons.prems(4) by simp
  have a: "\<forall>l\<in>set ls. NL \<notin> set l \<and> length l < MaxScanTokenSize \<and> accepted f (dropCR l)"
    using Cons.prems(3) by auto
  from Cons.IH [OF s1(1,2) a f1]
  obtain sc' r' where s': "scan_inv sc' r'" "sc_data sc' @ r' = rest"
    "lines_loop f sc1 r1 ?c1
      = lines_loop f sc' r'
          (?c1\<lparr>sent := sent ?c1 @ concat (map (\<lambda>l. frames f (dropCR l)) ls)\<rparr>)"
    by auto
  have "lines_loop f sc r c
      = lines_loop f sc' r'
          (c\<lparr>sent := sent c @ concat (map (\<lambda>l. frames f (dropCR l)) (l # ls))\<rparr>)"
    using s1(3) s'(3) by simp
  then show ?case using s'(1,2) by blast
qed




text \<open>The line function fails on the line after a prefix of accepted lines.\<close>

lemma lines_loop_error:
  assumes "scan_inv sc r"
    "sc_data sc @ r = concat (map (\<lambda>l. l @ [NL]) pre) @ bad @ NL # tail"
    "\<forall>l\<in>set pre. NL \<notin> set l \<and> length l < MaxScanTokenSize \<and> accepted f (dropCR l)"
    "NL \<notin> set bad" "length bad < MaxScanTokenSize" "dropCR bad \<noteq> []"
    "f (dropCR bad) = Inl e" "faults c = []"
  shows "\<exists>r'. lines_loop f sc r c
           = (Err (UserErr e), r',
              c\<lparr>sent := sent c @ concat (map (\<lambda>l. frames f (dropCR l)) pre)\<rparr>)"
proof -
  let ?c1 = "c\<lparr>sent := sent c @ concat (map (\<lambda>l. frames f (dropCR l)) pre)\<rparr>"
  from lines_loop_prefix [OF assms(1,2,3,8)]
  obtain sc1 r1 where s1: "scan_inv sc1 r1" "sc_data sc1 @ r1 = bad @ NL # tail"
    "lines_loop f sc r c = lines_loop f sc1 r1 ?c1" by auto
  from Scan_line [OF s1(1,2) assms(4,5)]
  obtain sc' r' where s: "Scan sc1 r1 = (Inr True, sc', r')" "sc_token sc' = dropCR bad"
    by auto
  have "lines_loop f sc1 r1 ?c1 = (Err (UserErr e), r', ?c1)"
    using assms(6,7) by (subst lines_loop.simps) (simp add: s)
  then show ?thesis using s1(3) by simp
qed

text \<open>The line function returns an empty line on the line after such a prefix.\<close>

lemma lines_loop_panic:
  assumes "scan_inv sc r"
    "sc_data sc @ r = concat (map (\<lambda>l. l @ [NL]) pre) @ bad @ NL # tail"
    "\<forall>l\<in>set pre. NL \<notin> set l \<and> length l < MaxScanTokenSize \<and> accepted f (dropCR l)"
    "NL \<notin> set bad" "length bad < MaxScanTokenSize" "dropCR bad \<noteq> []"
    "f (dropCR bad) = Inr []" "faults c = []"
  shows "\<exists>r' c'. lines_loop f sc r c = (Panic IndexOutOfRange, r', c')"
proof -
  let ?c1 = "c\<lparr>sent := sent c @ concat (map (\<lambda>l. frames f (dropCR l)) pre)\<rparr>"
  from lines_loop_prefix [OF assms(1,2,3,8)]
  obtain sc1 r1 where s1: "scan_inv sc1 r1" "sc_data sc1 @ r1 = bad @ NL # tail"
    "lines_loop f sc r c = lines_loop f sc1 r1 ?c1" by auto
  from Scan_line [OF s1(1,2) assms(4,5)]
  obtain sc' r' where s: "Scan sc1 r1 = (Inr True, sc', r')" "sc_token sc' = dropCR bad"
    by auto
  have "lines_loop f sc1 r1 ?c1 = (Panic IndexOutOfRange, r', ?c1\<lparr>sent := sent ?c1 @ [[]]\<rparr>)"
    using assms(6,7,8)
    by (subst lines_loop.simps) (simp add: s Write_def next_fault_def)
  then show ?thesis using s1(3) by simp
qed

text \<open>A line function that returns no empty line keeps the loop from panicking.\<close>

lemma lines_loop_no_panic:
  assumes "\<forall>t line. t \<noteq> [] \<longrightarrow> f t = Inr line \<longrightarrow> line \<noteq> []"
  shows "fst (lines_loop f sc r c) \<noteq> Panic p"
  using assms
proof (induction f sc r c rule: lines_loop.induct)
  case (1 f sc r c)
  obtain b sc' r' where s: "Scan sc r = (b, sc', r')" by (cases "Scan sc r") auto
  show ?case
  proof (cases b)
    case (Inl q)
    then show ?thesis using Scan_no_panic [OF s, of q] by simp
  next
    case (Inr got)
    note b = Inr
    show ?thesis
    proof (cases got)
      case False
      then show ?thesis using s b
        by (subst lines_loop.simps) (simp split: option.splits)
    next
      case True
      show ?thesis
      proof (cases "sc_token sc' = []")
        case e: True
        have "lines_loop f sc r c = lines_loop f sc' r' c"
          using s b True e by (subst lines_loop.simps) simp
        moreover have "fst (lines_loop f sc' r' c) \<noteq> Panic p"
          using "1.IH"(3) [OF s [symmetric] refl b] True e "1.prems" by simp
        ultimately show ?thesis by simp
      next
        case ne: False
        show ?thesis
        proof (cases "f (sc_token sc')")
          case (Inl err)
          then show ?thesis using s b True ne by (subst lines_loop.simps) simp
        next
          case (Inr line)
          then have l: "line \<noteq> []" using "1.prems" ne by blast
          obtain w c1 where w: "Write c line = (w, c1)" by (cases "Write c line") auto
          show ?thesis
          proof (cases w)
            case (Some err)
            then show ?thesis using s b True ne Inr w by (subst lines_loop.simps) simp
          next
            case None
            show ?thesis
            proof (cases "last line \<noteq> NL")
              case nl: True
              obtain w2 c2 where w2: "Write c1 [NL] = (w2, c2)" by (cases "Write c1 [NL]") auto
              show ?thesis
              proof (cases w2)
                case (Some err)
                then show ?thesis using s b True ne Inr w None l nl w2
                  by (subst lines_loop.simps) simp
              next
                case n2: None
                have "lines_loop f sc r c = lines_loop f sc' r' c2"
                  using s b True ne Inr w None l nl w2 n2 by (subst lines_loop.simps) simp
                moreover have "fst (lines_loop f sc' r' c2) \<noteq> Panic p"
                  using "1.IH"(1) [OF s [symmetric] refl b _ ne Inr _ _ l nl _ _ "1.prems"]
                    True w None w2 n2 by simp
                ultimately show ?thesis by simp
              qed
            next
              case nl: False
              have "lines_loop f sc r c = lines_loop f sc' r' c1"
                using s b True ne Inr w None l nl by (subst lines_loop.simps) simp
              moreover have "fst (lines_loop f sc' r' c1) \<noteq> Panic p"
                using "1.IH"(2) [OF s [symmetric] refl b _ ne Inr _ _ l nl "1.prems"]
                  True w None by simp
              ultimately show ?thesis by simp
            qed
          qed
        qed
      qed
    qed
  qed
qed

section \<open>The drain on a connected proxy\<close>

lemma ProcessLines_connected:
  assumes "conn s = Some c" "faults c = []"
  shows "ProcessLines now s f
         = (case lines_loop f NewScanner (buf s) (c\<lparr>wdeadline := Some (now + timeout s)\<rparr>) of
              (res, r', c') \<Rightarrow> (res, s\<lparr>buf := r', conn := Some c'\<rparr>))"
  using assms
  by (simp add: ProcessLines_def IsConnected_def SetWriteDeadline_def next_fault_def)

lemma wire_sent: "wire (c\<lparr>sent := sent c @ ws\<rparr>) = wire c @ concat ws"
  by (simp add: wire_def)







lemma ProcessLines_error_line:
  assumes "conn s = Some c" "faults c = []"
    "buf s = concat (map (\<lambda>l. l @ [NL]) pre) @ bad @ NL # tail"
    "\<forall>l\<in>set pre. NL \<notin> set l \<and> length l < MaxScanTokenSize \<and> accepted f (dropCR l)"
    "NL \<notin> set bad" "length bad < MaxScanTokenSize" "dropCR bad \<noteq> []"
    "f (dropCR bad) = Inl e"
  shows "\<exists>r'. ProcessLines now s f
             = (Err (UserErr e),
                s\<lparr>buf := r', conn := Some (c\<lparr>wdeadline := Some (now + timeout s),
                     sent := sent c @ concat (map (\<lambda>l. frames f (dropCR l)) pre)\<rparr>)\<rparr>)"
proof -
  let ?c0 = "c\<lparr>wdeadline := Some (now + timeout s)\<rparr>"
  have b: "sc_data NewScanner @ buf s = concat (map (\<lambda>l. l @ [NL]) pre) @ bad @ NL # tail"
    using assms(3) by (simp add: NewScanner_def)
  have f0: "faults ?c0 = []" using assms(2) by simp
  from lines_loop_error [OF scan_inv_NewScanner b assms(4-8) f0]
  obtain r' where "lines_loop f NewScanner (buf s) ?c0
      = (Err (UserErr e), r',
         ?c0\<lparr>sent := sent ?c0 @ concat (map (\<lambda>l. frames f (dropCR l)) pre)\<rparr>)" by blast
  then have "ProcessLines now s f
             = (Err (UserErr e),
                s\<lparr>buf := r', conn := Some (c\<lparr>wdeadline := Some (now + timeout s),
                     sent := sent c @ concat (map (\<lambda>l. frames f (dropCR l)) pre)\<rparr>)\<rparr>)"
    by (simp add: ProcessLines_connected [OF assms(1,2)])
  then show ?thesis by blast
qed

lemma ProcessLines_panic_line:
  assumes "conn s = Some c" "faults c = []"
    "buf s = concat (map (\<lambda>l. l @ [NL]) pre) @ bad @ NL # tail"
    "\<forall>l\<in>set pre. NL \<notin> set l \<and> length l < MaxScanTokenSize \<and> accepted f (dropCR l)"
    "NL \<notin> set bad" "length bad < MaxScanTokenSize" "dropCR bad \<noteq> []"
    "f (dropCR bad) = Inr []"
  shows "fst (ProcessLines now s f) = Panic IndexOutOfRange"
proof -
  let ?c0 = "c\<lparr>wdeadline := Some (now + timeout s)\<rparr>"
  have b: "sc_data NewScanner @ buf s = concat (map (\<lambda>l. l @ [NL]) pre) @ bad @ NL # tail"
    using assms(3) by (simp add: NewScanner_def)
  have f0: "faults ?c0 = []" using assms(2) by simp
  from lines_loop_panic [OF scan_inv_NewScanner b assms(4-8) f0]
  obtain r' c' where "lines_loop f NewScanner (buf s) ?c0 = (Panic IndexOutOfRange, r', c')"
    by blast
  then show ?thesis by (simp add: ProcessLines_connected [OF assms(1,2)])
qed

lemma ProcessLines_no_panic:
  assumes "\<forall>t line. t \<noteq> [] \<longrightarrow> f t = Inr line \<longrightarrow> line \<noteq> []"
  shows "fst (ProcessLines now s f) \<noteq> Panic p"
proof (cases "IsConnected s")
  case False
  then show ?thesis by (simp add: ProcessLines_def)
next
  case True
  obtain w c1 where w: "SetWriteDeadline (the (conn s)) (now + timeout s) = (w, c1)"
    by (cases "SetWriteDeadline (the (conn s)) (now + timeout s)") auto
  show ?thesis
  proof (cases w)
    case (Some err)
    then show ?thesis using True w by (simp add: ProcessLines_def)
  next
    case None
    obtain res r' c' where l: "lines_loop f NewScanner (buf s) c1 = (res, r', c')"
      by (cases "lines_loop f NewScanner (buf s) c1") auto
    have "res \<noteq> Panic p" using lines_loop_no_panic [OF assms, of NewScanner "buf s" c1 p] l
      by simp
    then show ?thesis using True w None l by (simp add: ProcessLines_def)
  qed
qed
section \<open>Construction of the proxy\<close>

lemma priority_bounds: "(LOG_LOCAL7 OR LOG_DEBUG) = 191" "(LOG_INFO OR LOG_USER) = 14"
  by (simp_all add: LOG_LOCAL7_def LOG_DEBUG_def LOG_INFO_def LOG_USER_def)

text \<open>
  C3, as stated, fails: with the options unset (the zero value) the constructed proxy has
  priority 0, not the info/user default 14.
\<close>

theorem C3_unset_priority_not_default:
  "map_sum id priority (NewSyslogProxy [''prog''] demo_maxAlloc 4096 4096 (Some zeroOptions))
     = Inr 0
   \<and> (0::int) \<noteq> (LOG_INFO OR LOG_USER)"
  by (simp add: NewSyslogProxy_def zeroOptions_def priority_bounds Let_def demo_maxAlloc_def)

text \<open>
  C3, amended: whenever construction returns a proxy, its priority is the info/user
  default exactly when the given priority lies outside 0..191 and is the given priority
  otherwise (0 for unset options), and its tag is the given tag, or the first
  command-line argument when the tag is empty. Construction does return a proxy when
  there is a tag or a program name and each buffer size in effect is neither negative
  nor above the allocation limit.
\<close>

theorem C3_NewSyslogProxy_defaults:
  assumes "o0 = (case opts of None \<Rightarrow> zeroOptions | Some x \<Rightarrow> x)"
  shows "(\<forall>p. NewSyslogProxy args maxAlloc iob lpb opts = Inr p \<longrightarrow>
            priority p = (if Priority o0 < 0 \<or> 191 < Priority o0
                          then LOG_INFO OR LOG_USER else Priority o0)
            \<and> tag p = (if Tag o0 = [] then hd args else Tag o0)
            \<and> (Tag o0 = [] \<longrightarrow> args \<noteq> []))
         \<and> ((Tag o0 = [] \<longrightarrow> args \<noteq> [])
              \<and> 0 \<le> IOBufSize o0 \<and> IOBufSize o0 \<le> maxAlloc
              \<and> 0 \<le> LineProcessBufSize o0 \<and> LineProcessBufSize o0 \<le> maxAlloc
              \<and> 0 \<le> iob \<and> iob \<le> maxAlloc \<and> 0 \<le> lpb \<and> lpb \<le> maxAlloc
              \<longrightarrow> (\<exists>p. NewSyslogProxy args maxAlloc iob lpb opts = Inr p))"
proof -
  have 1: "priority p = (if Priority o0 < 0 \<or> 191 < Priority o0
                          then LOG_INFO OR LOG_USER else Priority o0)
            \<and> tag p = (if Tag o0 = [] then hd args else Tag o0)
            \<and> (Tag o0 = [] \<longrightarrow> args \<noteq> [])"
    if "NewSyslogProxy args maxAlloc iob lpb opts = Inr p" for p
    using that assms
    by (auto simp: NewSyslogProxy_def priority_bounds Let_def split: if_splits)
  have 2: "\<exists>p. NewSyslogProxy args maxAlloc iob lpb opts = Inr p"
    if "(Tag o0 = [] \<longrightarrow> args \<noteq> [])
              \<and> 0 \<le> IOBufSize o0 \<and> IOBufSize o0 \<le> maxAlloc
              \<and> 0 \<le> LineProcessBufSize o0 \<and> LineProcessBufSize o0 \<le> maxAlloc
              \<and> 0 \<le> iob \<and> iob \<le> maxAlloc \<and> 0 \<le> lpb \<and> lpb \<le> maxAlloc"
    using that assms by (auto simp: NewSyslogProxy_def Let_def)
  from 1 2 show ?thesis by blast
qed

theorem C3_NewSyslogProxy_defaults_witness:
  "map_sum id (\<lambda>p. (priority p, tag p))
      (NewSyslogProxy [''prog'', ''-v''] demo_maxAlloc 4096 4096
         (Some (zeroOptions\<lparr>Priority := 200\<rparr>))) = Inr (14, ''prog'')
   \<and> map_sum id (\<lambda>p. (priority p, tag p))
      (NewSyslogProxy [''prog'', ''-v''] demo_maxAlloc 4096 4096
         (Some (zeroOptions\<lparr>Priority := 30, Tag := ''app''\<rparr>))) = Inr (30, ''app'')"
proof -
  let ?a = "zeroOptions\<lparr>Priority := 200\<rparr>"
  let ?b = "zeroOptions\<lparr>Priority := 30, Tag := ''app''\<rparr>"
  have ha: "(Tag ?a = [] \<longrightarrow> [''prog'', ''-v''] \<noteq> [])
      \<and> 0 \<le> IOBufSize ?a \<and> IOBufSize ?a \<le> demo_maxAlloc
      \<and> 0 \<le> LineProcessBufSize ?a \<and> LineProcessBufSize ?a \<le> demo_maxAlloc
      \<and> (0::int) \<le> 4096 \<and> 4096 \<le> demo_maxAlloc \<and> (0::int) \<le> 4096 \<and> 4096 \<le> demo_maxAlloc"
    and hb: "(Tag ?b = [] \<longrightarrow> [''prog'', ''-v''] \<noteq> [])
      \<and> 0 \<le> IOBufSize ?b \<and> IOBufSize ?b \<le> demo_maxAlloc
      \<and> 0 \<le> LineProcessBufSize ?b \<and> LineProcessBufSize ?b \<le> demo_maxAlloc
      \<and> (0::int) \<le> 4096 \<and> 4096 \<le> demo_maxAlloc \<and> (0::int) \<le> 4096 \<and> 4096 \<le> demo_maxAlloc"
    by (simp_all add: zeroOptions_def demo_maxAlloc_def)
  note ta = C3_NewSyslogProxy_defaults [of ?a "Some ?a" "[''prog'', ''-v'']" demo_maxAlloc
      4096 4096]
  note tb = C3_NewSyslogProxy_defaults [of ?b "Some ?b" "[''prog'', ''-v'']" demo_maxAlloc
      4096 4096]
  obtain pa where pa: "NewSyslogProxy [''prog'', ''-v''] demo_maxAlloc 4096 4096 (Some ?a)
      = Inr pa"
    using ta ha by auto
  obtain pb where pb: "NewSyslogProxy [''prog'', ''-v''] demo_maxAlloc 4096 4096 (Some ?b)
      = Inr pb"
    using tb hb by auto
  have "priority pa = 14 \<and> tag pa = ''prog''"
    using ta pa by (auto simp: zeroOptions_def priority_bounds)
  moreover have "priority pb = 30 \<and> tag pb = ''app''"
    using tb pb by (auto simp: zeroOptions_def priority_bounds)
  ultimately show ?thesis using pa pb by simp
qed

section \<open>The level gate\<close>

lemma probe_level_find:
  "probe_level en ls lv = (case find en ls of Some l \<Rightarrow> l | None \<Rightarrow> lv)"
  by (induction ls) auto

lemma probe_level_none: "\<forall>l\<in>set ls. \<not> en l \<Longrightarrow> probe_level en ls lv = lv"
  by (induction ls) auto

lemma probe_level_sorted:
  "sorted ls \<Longrightarrow> \<exists>l\<in>set ls. en l \<Longrightarrow> probe_level en ls lv = Min {l \<in> set ls. en l}"
proof (induction ls)
  case Nil
  then show ?case by simp
next
  case (Cons a ls)
  show ?case
  proof (cases "en a")
    case True
    have "finite {l \<in> set (a # ls). en l}" by simp
    moreover have "a \<in> {l \<in> set (a # ls). en l}" using True by simp
    moreover have "\<forall>x\<in>{l \<in> set (a # ls). en l}. a \<le> x" using Cons.prems(1) by auto
    ultimately have "Min {l \<in> set (a # ls). en l} = a" by (intro Min_eqI) auto
    then show ?thesis using True by simp
  next
    case False
    then have ex: "\<exists>l\<in>set ls. en l" using Cons.prems(2) by auto
    have "{l \<in> set (a # ls). en l} = {l \<in> set ls. en l}" using False by auto
    moreover have "sorted ls" using Cons.prems(1) by simp
    ultimately show ?thesis using Cons.IH ex False by simp
  qed
qed

text \<open>
  C2, as stated, fails: the loop stores the first level of the scanned list that the
  wrapped handler enables, which need not be the lowest level it enables. Scanning
  Error, Warn, Info, Debug (8, 4, 0, -4) over a wrapped handler that enables Warn and
  above caches Error: Warn is enabled by the wrapped handler and lower, and the handler
  refuses it. Scanning Debug, Info, Warn, Error over a wrapped handler that enables
  every level from -8 caches Debug (-4), though the level -8 is enabled and lower.
\<close>

theorem C2_first_match_not_lowest:
  "level (NewSyslogHandler [8, 4, 0, -4] (\<lambda>l. (l, False)) (demo_downstream (\<lambda>l. 4 \<le> l)) None)
     = 8
   \<and> d_enabled (demo_downstream (\<lambda>l. 4 \<le> l)) 4
   \<and> \<not> Enabled (NewSyslogHandler [8, 4, 0, -4] (\<lambda>l. (l, False))
           (demo_downstream (\<lambda>l. 4 \<le> l)) None) 4
   \<and> level (NewSyslogHandler [-4, 0, 4, 8] (\<lambda>l. (l, False))
        (demo_downstream (\<lambda>l. - 8 \<le> l)) None) = - 4
   \<and> d_enabled (demo_downstream (\<lambda>l. - 8 \<le> l)) (- 8)"
  by (simp add: NewSyslogHandler_def Enabled_def demo_downstream_def)

text \<open>
  C2, amended: for every wrapped handler and every scanned list, the level cached at
  construction is the first level of the list, in the order of the list, that the
  wrapped handler enables, and 0 if it enables none; \<open>Enabled\<close> holds exactly from that
  level upwards; and replacing the wrapped handler's policy afterwards does not change
  \<open>Enabled\<close>. When the list is in ascending order, the cached level is the lowest level
  of the list that the wrapped handler enables.
\<close>

theorem C2_cached_level_first_enabled:
  assumes "sh = NewSyslogHandler allowedLevels trim h opts"
  shows "level sh = (case find (d_enabled h) allowedLevels of Some l \<Rightarrow> l | None \<Rightarrow> 0)
         \<and> (Enabled sh lv \<longleftrightarrow> level sh \<le> lv)
         \<and> Enabled (sh\<lparr>handler := (handler sh)\<lparr>d_enabled := en'\<rparr>\<rparr>) lv = Enabled sh lv
         \<and> (sorted allowedLevels \<longrightarrow>
              level sh = (if \<exists>l\<in>set allowedLevels. d_enabled h l
                          then Min {l \<in> set allowedLevels. d_enabled h l} else 0))"
proof -
  have l: "level sh = probe_level (d_enabled h) allowedLevels 0"
    using assms by (simp add: NewSyslogHandler_def)
  then have 1: "level sh
      = (case find (d_enabled h) allowedLevels of Some l \<Rightarrow> l | None \<Rightarrow> 0)"
    by (simp add: probe_level_find)
  have 2: "level sh = (if \<exists>l\<in>set allowedLevels. d_enabled h l
                     then Min {l \<in> set allowedLevels. d_enabled h l} else 0)"
    if "sorted allowedLevels"
    using l probe_level_sorted [OF that] probe_level_none by auto
  from 1 2 show ?thesis by (simp add: Enabled_def)
qed

theorem C2_cached_level_first_enabled_witness:
  "level (NewSyslogHandler [8, 4, 0, -4] (\<lambda>l. (l, False)) (demo_downstream (\<lambda>l. 4 \<le> l)) None)
     = 8
   \<and> level (NewSyslogHandler [-4, 0, 4, 8] (\<lambda>l. (l, False))
        (demo_downstream (\<lambda>l. 4 \<le> l)) None) = 4
   \<and> Min {l \<in> set [-4, 0, 4, 8]. d_enabled (demo_downstream (\<lambda>l. 4 \<le> l)) l} = 4
   \<and> \<not> Enabled (NewSyslogHandler [-4, 0, 4, 8] (\<lambda>l. (l, False))
           (demo_downstream (\<lambda>l. 4 \<le> l)) None) 0"
proof -
  let ?h = "demo_downstream (\<lambda>l. 4 \<le> l)"
  let ?t = "(\<lambda>l. (l, False)) :: string \<Rightarrow> string \<times> bool"
  note d = C2_cached_level_first_enabled [OF refl, of "[8, 4, 0, -4]" ?t ?h None 0 "\<lambda>l. True"]
  note a = C2_cached_level_first_enabled [OF refl, of "[-4, 0, 4, 8]" ?t ?h None 0 "\<lambda>l. True"]
  have s: "sorted [-4, 0, 4, 8 :: int]" by simp
  have e: "\<exists>l\<in>set [-4, 0, 4, 8 :: int]. d_enabled ?h l" by (simp add: demo_downstream_def)
  have 1: "level (NewSyslogHandler [8, 4, 0, -4] ?t ?h None) = 8"
    using d by (simp add: demo_downstream_def)
  have 2: "level (NewSyslogHandler [-4, 0, 4, 8] ?t ?h None) = 4"
    using a by (simp add: demo_downstream_def)
  have 3: "Min {l \<in> set [-4, 0, 4, 8]. d_enabled ?h l} = 4"
    using a s e 2 by simp
  have 4: "\<not> Enabled (NewSyslogHandler [-4, 0, 4, 8] ?t ?h None) 0"
    using a 2 by simp
  from 1 2 3 4 show ?thesis by blast
qed

section \<open>Operations on a disconnected proxy\<close>

text \<open>
  C6: for every buffer content and every line function, \<open>ProcessLines\<close> on a disconnected
  proxy returns the connection error and leaves the proxy, its buffer with it, as it was.
\<close>

theorem C6_drain_disconnected:
  assumes "\<not> IsConnected s"
  shows "ProcessLines now s processFunc = (Err (Wrapped ErrSyslogConnection NotConnected), s)
         \<and> buf (snd (ProcessLines now s processFunc)) = buf s"
  using assms by (simp add: ProcessLines_def)

theorem C6_drain_disconnected_witness:
  "\<not> IsConnected \<lparr>buf = ''a'' @ [NL] @ ''b'', lineProcessBuf = [], priority = 14,
       tag = ''t'', url = ''udp://h:514'', conn = None, useLocalTZ = False, timeout = 5,
       mu = \<lparr>locked = False, acquisitions = 0\<rparr>\<rparr>
   \<and> map_prod id buf (ProcessLines 100 \<lparr>buf = ''a'' @ [NL] @ ''b'', lineProcessBuf = [],
       priority = 14, tag = ''t'', url = ''udp://h:514'', conn = None, useLocalTZ = False,
       timeout = 5, mu = \<lparr>locked = False, acquisitions = 0\<rparr>\<rparr>
         (Inr :: string \<Rightarrow> unit + string))
     = (Err (Wrapped ErrSyslogConnection NotConnected), ''a'' @ [NL] @ ''b'')"
proof -
  have d: "\<not> IsConnected \<lparr>buf = ''a'' @ [NL] @ ''b'', lineProcessBuf = [], priority = 14,
       tag = ''t'', url = ''udp://h:514'', conn = None, useLocalTZ = False, timeout = 5,
       mu = \<lparr>locked = False, acquisitions = 0\<rparr>\<rparr>"
    by (simp add: IsConnected_def)
  show ?thesis
    using d C6_drain_disconnected [OF d, of 100 "Inr :: string \<Rightarrow> unit + string"] by simp
qed

text \<open>
  C8: for every record, \<open>Handle\<close> on a disconnected proxy returns the connection error
  with the handler and the proxy unchanged: the mutex has not been acquired and the
  wrapped handler has not been called.
\<close>

theorem C8_handle_disconnected:
  assumes "\<not> IsConnected px"
  shows "Handle now h r px = (Err (Wrapped ErrSyslogConnection NotConnected), h, px)
         \<and> d_calls (handler (fst (snd (Handle now h r px)))) = d_calls (handler h)
         \<and> acquisitions (mu (snd (snd (Handle now h r px)))) = acquisitions (mu px)"
  using assms by (simp add: Handle_def)

theorem C8_handle_disconnected_witness:
  "\<not> IsConnected \<lparr>buf = [], lineProcessBuf = [], priority = 14,
       tag = ''t'', url = [], conn = None, useLocalTZ = False, timeout = 5,
       mu = \<lparr>locked = False, acquisitions = 0\<rparr>\<rparr>
   \<and> map_prod id (\<lambda>(h', px'). (d_calls (handler h'), acquisitions (mu px')))
       (Handle 100
         \<lparr>handler = \<lparr>d_enabled = (\<lambda>l. True),
            d_handle = (\<lambda>r::string. (r @ [NL], None :: unit option)), d_calls = 0\<rparr>,
          level = 0, lineProcessFunc = Inr\<rparr>
         ''msg''
         \<lparr>buf = [], lineProcessBuf = [], priority = 14,
          tag = ''t'', url = [], conn = None, useLocalTZ = False, timeout = 5,
          mu = \<lparr>locked = False, acquisitions = 0\<rparr>\<rparr>)
     = (Err (Wrapped ErrSyslogConnection NotConnected), 0, 0)"
proof -
  have d: "\<not> IsConnected \<lparr>buf = [], lineProcessBuf = [], priority = 14,
       tag = ''t'', url = [], conn = None, useLocalTZ = False, timeout = 5,
       mu = \<lparr>locked = False, acquisitions = 0\<rparr>\<rparr>"
    by (simp add: IsConnected_def)
  show ?thesis
    using d C8_handle_disconnected [OF d, of 100
        "\<lparr>handler = \<lparr>d_enabled = (\<lambda>l. True),
            d_handle = (\<lambda>r::string. (r @ [NL], None :: unit option)), d_calls = 0\<rparr>,
          level = 0, lineProcessFunc = Inr\<rparr>" "''msg''"]
    by simp
qed

section \<open>Failing to connect\<close>

text \<open>
  C9: whenever \<open>Connect\<close> returns an error, the connection of the proxy is the one it had
  (a disconnected proxy stays disconnected, a connected one keeps its connection, with
  its timeout and buffer); the error wraps \<open>ErrSyslogURLparse\<close> when the URL does not
  parse or its scheme is not allowed, and then nothing of the proxy has changed, and it
  wraps \<open>ErrSyslogConnection\<close> when the dial fails.
\<close>

theorem C9_failed_connect_keeps_connection:
  assumes "Connect prs dial dflt s dest tmo = (Err e, s')"
  shows "conn s' = conn s \<and> IsConnected s' = IsConnected s
         \<and> timeout s' = timeout s \<and> buf s' = buf s
         \<and> ((\<exists>c. e = Wrapped ErrSyslogURLparse c) \<and> s' = s
              \<and> (\<forall>u. prs (if dest = [] then url s else dest) = Inr u
                     \<longrightarrow> Scheme u \<notin> set allowedProto)
            \<or> (\<exists>m. e = Wrapped ErrSyslogConnection (IOErr m)))"
  using assms
  by (auto simp: Connect_def Let_def IsConnected_def split: sum.splits if_splits)

theorem C9_failed_connect_keeps_connection_witness:
  "Connect Parse (\<lambda>n a t. Inl ''connection refused'') 3 (demo_proxy []) ''http://x'' 0
     = (Err (Wrapped ErrSyslogURLparse (UnsupportedProto ''http://x'' ''http'')) :: unit result,
        demo_proxy [])
   \<and> fst (Connect Parse (\<lambda>n a t. Inl ''connection refused'') 3 (demo_proxy [])
          ''tcp://192.0.2.7:514'' 0)
     = (Err (Wrapped ErrSyslogConnection (IOErr ''connection refused'')) :: unit result)
   \<and> conn (snd (Connect Parse (\<lambda>n a t. Inl ''connection refused'') 3 (demo_proxy [])
          ''tcp://192.0.2.7:514'' 0 :: unit result \<times> SyslogProxy))
     = Some demo_conn"
proof -
  let ?dial = "(\<lambda>n a t. Inl ''connection refused'') :: string \<Rightarrow> string \<Rightarrow> int \<Rightarrow> string + conn"
  let ?e = "Wrapped ErrSyslogConnection (IOErr ''connection refused'') :: unit error"
  have p1: "Parse ''http://x'' = Inr \<lparr>Scheme = ''http'', Host = ''x'', Path = []\<rparr>"
    by code_simp
  have p2: "Parse ''tcp://192.0.2.7:514''
      = Inr \<lparr>Scheme = ''tcp'', Host = ''192.0.2.7:514'', Path = []\<rparr>"
    by code_simp
  have 1: "Connect Parse ?dial 3 (demo_proxy []) ''http://x'' 0
     = (Err (Wrapped ErrSyslogURLparse (UnsupportedProto ''http://x'' ''http'')) :: unit result,
        demo_proxy [])"
    by (simp add: Connect_def p1 allowedProto_def Let_def)
  have 2: "Connect Parse ?dial 3 (demo_proxy []) ''tcp://192.0.2.7:514'' 0
      = (Err ?e, (demo_proxy [])\<lparr>url := ''tcp://192.0.2.7:514''\<rparr>)"
    by (simp add: Connect_def p2 allowedProto_def Let_def)
  from C9_failed_connect_keeps_connection [OF 2]
  have "conn ((demo_proxy [])\<lparr>url := ''tcp://192.0.2.7:514''\<rparr>) = conn (demo_proxy [])"
    by simp
  then show ?thesis using 1 2 by (simp add: demo_proxy_def)
qed


section \<open>The stored destination\<close>

text \<open>
  Two parts of C10 hold for every behaviour of the parser and of the dial: a \<open>Connect\<close>
  that succeeds has stored the scheme, \<open>://\<close> and the address (the path for \<open>unix\<close>, the
  host otherwise), and \<open>Connect\<close> with the empty string is \<open>Connect\<close> with the stored
  destination.
\<close>

lemma Connect_stores_normalized:
  assumes "Connect prs dial dflt s dest tmo = (Nil, s')"
  shows "\<exists>u. prs (if dest = [] then url s else dest) = Inr u \<and> Scheme u \<in> set allowedProto
           \<and> url s' = Scheme u @ ''://'' @ (if Scheme u = ''unix'' then Path u else Host u)"
proof (cases "prs (if dest = [] then url s else dest)")
  case (Inl err)
  then show ?thesis using assms by (simp add: Connect_def)
next
  case (Inr u)
  show ?thesis
  proof (cases "Scheme u \<in> set allowedProto")
    case False
    then show ?thesis using assms Inr by (simp add: Connect_def)
  next
    case True
    let ?addr = "if Scheme u = ''unix'' then Path u else Host u"
    let ?t = "if tmo = 0 then dflt else tmo"
    show ?thesis
    proof (cases "dial (Scheme u) ?addr ?t")
      case (Inl err)
      then show ?thesis using assms Inr True by (simp add: Connect_def Let_def)
    next
      case c: (Inr c)
      have "s' = Unlock ((Disconnect (Lock (s\<lparr>url := Scheme u @ ''://'' @ ?addr\<rparr>)))
                                 \<lparr>conn := Some c, timeout := ?t\<rparr>)"
        using assms Inr True c by (simp add: Connect_def Let_def split: if_splits)
      then have "url s' = Scheme u @ ''://'' @ ?addr"
        by (simp add: Unlock_def Lock_def Disconnect_def)
      then show ?thesis using Inr True by blast
    qed
  qed
qed

lemma Connect_empty_reuses_stored:
  "Connect prs dial dflt s [] tmo = Connect prs dial dflt s (url s) tmo"
  by (simp add: Connect_def)

text \<open>
  For a destination without escapes the stored value parses to the same scheme and
  address, and the second \<open>Connect\<close> dials them again.
\<close>

lemma Connect_reuses_plain_destination:
  "Connect Parse demo_dial 3 fresh_proxy ''tcp://192.0.2.7:514'' 0
     = (Nil :: unit result,
        fresh_proxy\<lparr>url := ''tcp://192.0.2.7:514'',
          conn := Some (demo_conn\<lparr>network := ''tcp'', address := ''192.0.2.7:514''\<rparr>),
          timeout := 3, mu := \<lparr>locked = False, acquisitions = 1\<rparr>\<rparr>)
   \<and> Connect Parse demo_dial 3
         (fresh_proxy\<lparr>url := ''tcp://192.0.2.7:514'',
            conn := Some (demo_conn\<lparr>network := ''tcp'', address := ''192.0.2.7:514''\<rparr>),
            timeout := 3, mu := \<lparr>locked = False, acquisitions = 1\<rparr>\<rparr>) [] 0
     = (Nil :: unit result,
        fresh_proxy\<lparr>url := ''tcp://192.0.2.7:514'',
          conn := Some (demo_conn\<lparr>network := ''tcp'', address := ''192.0.2.7:514''\<rparr>),
          timeout := 3, mu := \<lparr>locked = False, acquisitions = 2\<rparr>\<rparr>)"
proof -
  have p: "Parse ''tcp://192.0.2.7:514''
      = Inr \<lparr>Scheme = ''tcp'', Host = ''192.0.2.7:514'', Path = []\<rparr>"
    by code_simp
  show ?thesis
    by (simp add: Connect_def p allowedProto_def fresh_proxy_def demo_proxy_def
        demo_dial_def demo_conn_def Lock_def Unlock_def Disconnect_def Let_def)
qed

text \<open>
  C10, the round trip, fails on the code where the address holds a percent escape.
  \<open>Connect\<close> to \<open>udp://[fe80::1%25eth0]:514\<close>, an IPv6 address with a zone, succeeds and
  dials \<open>[fe80::1%eth0]:514\<close>; it stores \<open>udp://[fe80::1%eth0]:514\<close>, with the escape
  decoded, and \<open>Connect\<close> with the empty string then fails to parse what was stored.
  Likewise for the socket path of \<open>unix:///run/a%25b\<close>.
\<close>

theorem C10_stored_destination_does_not_parse:
  "Connect Parse demo_dial 3 fresh_proxy ''udp://[fe80::1%25eth0]:514'' 0
     = (Nil :: unit result,
        fresh_proxy\<lparr>url := ''udp://[fe80::1%eth0]:514'',
          conn := Some (demo_conn\<lparr>network := ''udp'', address := ''[fe80::1%eth0]:514''\<rparr>),
          timeout := 3, mu := \<lparr>locked = False, acquisitions = 1\<rparr>\<rparr>)
   \<and> fst (Connect Parse demo_dial 3
         (fresh_proxy\<lparr>url := ''udp://[fe80::1%eth0]:514'',
            conn := Some (demo_conn\<lparr>network := ''udp'', address := ''[fe80::1%eth0]:514''\<rparr>),
            timeout := 3, mu := \<lparr>locked = False, acquisitions = 1\<rparr>\<rparr>) [] 0)
     = (Err (Wrapped ErrSyslogURLparse
          (URLWrong ''udp://[fe80::1%eth0]:514'' (EscapeError ''%et''))) :: unit result)
   \<and> Connect Parse demo_dial 3 fresh_proxy ''unix:///run/a%25b'' 0
     = (Nil :: unit result,
        fresh_proxy\<lparr>url := ''unix:///run/a%b'',
          conn := Some (demo_conn\<lparr>network := ''unix'', address := ''/run/a%b''\<rparr>),
          timeout := 3, mu := \<lparr>locked = False, acquisitions = 1\<rparr>\<rparr>)
   \<and> fst (Connect Parse demo_dial 3
         (fresh_proxy\<lparr>url := ''unix:///run/a%b'',
            conn := Some (demo_conn\<lparr>network := ''unix'', address := ''/run/a%b''\<rparr>),
            timeout := 3, mu := \<lparr>locked = False, acquisitions = 1\<rparr>\<rparr>) [] 0)
     = (Err (Wrapped ErrSyslogURLparse
          (URLWrong ''unix:///run/a%b'' (EscapeError ''%b''))) :: unit result)"
proof -
  have p1: "Parse ''udp://[fe80::1%25eth0]:514''
      = Inr \<lparr>Scheme = ''udp'', Host = ''[fe80::1%eth0]:514'', Path = []\<rparr>"
    by code_simp
  have p2: "Parse ''udp://[fe80::1%eth0]:514'' = Inl (EscapeError ''%et'')"
    by code_simp
  have p3: "Parse ''unix:///run/a%25b''
      = Inr \<lparr>Scheme = ''unix'', Host = [], Path = ''/run/a%b''\<rparr>"
    by code_simp
  have p4: "Parse ''unix:///run/a%b'' = Inl (EscapeError ''%b'')"
    by code_simp
  show ?thesis
    by (simp add: Connect_def p1 p2 p3 p4 allowedProto_def fresh_proxy_def demo_proxy_def
        demo_dial_def demo_conn_def Lock_def Unlock_def Disconnect_def Let_def)
qed

section \<open>Forwarding the lines of the buffer\<close>






section \<open>Failures during the drain\<close>

text \<open>
  C5: on a connected proxy whose writes succeed, when the line function returns an error
  on a non-empty line of the buffer and has accepted every line before it,
  \<open>ProcessLines\<close> returns exactly that error, not wrapped; the connection has received the
  writes for the lines before it, and nothing for that line or any line after it.
\<close>

theorem C5_transform_error_aborts:
  assumes "conn s = Some c" and "faults c = []"
    and "buf s = concat (map (\<lambda>l. l @ [NL]) pre) @ bad @ NL # tail"
    and "\<forall>l\<in>set pre. NL \<notin> set l \<and> length l < MaxScanTokenSize \<and> accepted f (dropCR l)"
    and "NL \<notin> set bad" and "length bad < MaxScanTokenSize"
    and "dropCR bad \<noteq> []" and "f (dropCR bad) = Inl e"
  shows "\<exists>s' c'. ProcessLines now s f = (Err (UserErr e), s') \<and> conn s' = Some c'
           \<and> sent c' = sent c @ concat (map (\<lambda>l. frames f (dropCR l)) pre)"
proof -
  from ProcessLines_error_line [OF assms, of now]
  obtain r' where "ProcessLines now s f
             = (Err (UserErr e),
                s\<lparr>buf := r', conn := Some (c\<lparr>wdeadline := Some (now + timeout s),
                     sent := sent c @ concat (map (\<lambda>l. frames f (dropCR l)) pre)\<rparr>)\<rparr>)"
    by blast
  then show ?thesis by simp
qed

theorem C5_transform_error_aborts_witness:
  "fst (ProcessLines 100 (demo_proxy (''a'' @ [NL] @ ''b'' @ [NL] @ ''c'' @ [NL]))
       (\<lambda>l. if l = ''b'' then Inl ''no'' else Inr l)) = Err (UserErr ''no'')
   \<and> map_option sent (conn (snd (ProcessLines 100
       (demo_proxy (''a'' @ [NL] @ ''b'' @ [NL] @ ''c'' @ [NL]))
       (\<lambda>l. if l = ''b'' then Inl ''no'' else Inr l)))) = Some [''a'', [NL]]"
proof -
  let ?p = "demo_proxy (''a'' @ [NL] @ ''b'' @ [NL] @ ''c'' @ [NL])"
  let ?f = "(\<lambda>l. if l = ''b'' then Inl ''no'' else Inr l) :: string \<Rightarrow> string + string"
  have h: "conn ?p = Some demo_conn" "faults demo_conn = []"
    "buf ?p = concat (map (\<lambda>l. l @ [NL]) [''a'']) @ ''b'' @ NL # (''c'' @ [NL])"
    "\<forall>l\<in>set [''a'']. NL \<notin> set l \<and> length l < MaxScanTokenSize \<and> accepted ?f (dropCR l)"
    "NL \<notin> set ''b''" "length ''b'' < MaxScanTokenSize" "dropCR ''b'' \<noteq> []"
    "?f (dropCR ''b'') = Inl ''no''"
    by (simp_all add: demo_proxy_def demo_conn_def MaxScanTokenSize_def accepted_def dropCR_def)
  from C5_transform_error_aborts [OF h, of 100]
  obtain s' c' where c': "ProcessLines 100 ?p ?f = (Err (UserErr ''no''), s')"
    "conn s' = Some c'"
    "sent c' = sent demo_conn @ concat (map (\<lambda>l. frames ?f (dropCR l)) [''a''])"
    by blast
  have "sent c' = [''a'', [NL]]"
    using c'(3) by (simp add: frames_def dropCR_def demo_conn_def)
  then show ?thesis using c'(1,2) by simp
qed

text \<open>
  C4: \<open>ProcessLines\<close> indexes the last byte of the transformed line without looking at
  its length. On a connected proxy whose writes succeed, when the line function returns
  an empty line for a non-empty line of the buffer and has accepted every line before
  it, \<open>ProcessLines\<close> does not return: it panics with an index out of range. With a line
  function that returns no empty line for a non-empty line, it never panics.
\<close>

theorem C4_empty_transformed_line_panics:
  assumes "conn s = Some c" and "faults c = []"
    and "buf s = concat (map (\<lambda>l. l @ [NL]) pre) @ bad @ NL # tail"
    and "\<forall>l\<in>set pre. NL \<notin> set l \<and> length l < MaxScanTokenSize \<and> accepted f (dropCR l)"
    and "NL \<notin> set bad" and "length bad < MaxScanTokenSize"
    and "dropCR bad \<noteq> []" and "f (dropCR bad) = Inr []"
  shows "fst (ProcessLines now s f) = Panic IndexOutOfRange
         \<and> (\<forall>g s0 p. (\<forall>t line. t \<noteq> [] \<longrightarrow> g t = Inr line \<longrightarrow> line \<noteq> [])
               \<longrightarrow> fst (ProcessLines now s0 (g :: string \<Rightarrow> 'e + string)) \<noteq> Panic p)"
  using ProcessLines_panic_line [OF assms, of now] ProcessLines_no_panic by blast

theorem C4_empty_transformed_line_panics_witness:
  "fst (ProcessLines 100 (demo_proxy (''a'' @ [NL] @ ''b'' @ [NL]))
       (\<lambda>l. if l = ''b'' then Inr [] else Inr l :: unit + string)) = Panic IndexOutOfRange
   \<and> fst (ProcessLines 100 (demo_proxy (''a'' @ [NL] @ ''b'' @ [NL]))
       (Inr :: string \<Rightarrow> unit + string)) \<noteq> Panic IndexOutOfRange"
proof -
  let ?p = "demo_proxy (''a'' @ [NL] @ ''b'' @ [NL])"
  let ?f = "(\<lambda>l. if l = ''b'' then Inr [] else Inr l) :: string \<Rightarrow> unit + string"
  have h: "conn ?p = Some demo_conn" "faults demo_conn = []"
    "buf ?p = concat (map (\<lambda>l. l @ [NL]) [''a'']) @ ''b'' @ NL # []"
    "\<forall>l\<in>set [''a'']. NL \<notin> set l \<and> length l < MaxScanTokenSize \<and> accepted ?f (dropCR l)"
    "NL \<notin> set ''b''" "length ''b'' < MaxScanTokenSize" "dropCR ''b'' \<noteq> []"
    "?f (dropCR ''b'') = Inr []"
    by (simp_all add: demo_proxy_def demo_conn_def MaxScanTokenSize_def accepted_def dropCR_def)
  have g: "\<forall>t line. t \<noteq> [] \<longrightarrow> (Inr :: string \<Rightarrow> unit + string) t = Inr line \<longrightarrow> line \<noteq> []"
    by simp
  from C4_empty_transformed_line_panics [OF h, of 100] g
  show ?thesis by blast
qed

end
